theory Spec2Isabelle
  imports Main "HOL-Library.AList"
begin

text \<open>
  A soft-delete middleware for the Prisma client. The repository holds two versions of
  \<open>applyMiddleware\<close>, each a sequence of three \<open>prisma.$use\<close> callbacks:
  \<^item> \<open>middleware.ts\<close>: lookups, updates, deletions; a row is deleted when its
    \<open>deletedAt\<close> is not \<open>null\<close>. Its definitions carry the suffix \<open>1\<close>.
  \<^item> a second source file, called the fork below: lookups, deletions, includes, with a
    skip list of model names and the flag \<open>isDeleted\<close> next to \<open>deletedAt\<close>; the
    update callback is commented out there. Its definitions carry the suffix \<open>2\<close>.
\<close>

section \<open>JavaScript values\<close>

text \<open>
  The middleware receives \<open>params.args\<close> with the TypeScript type \<open>any\<close>, so the
  model needs a universe of JavaScript values. An object is its class together with the
  list of its own enumerable string-keyed properties, in enumeration order. Arrays are
  objects whose properties are keyed by the decimal indices; a \<open>Date\<close> is an object
  that carries its time value (milliseconds since the epoch) and, normally, no own
  properties.

  Abstractions made once and for all:
  \<^item> a number is an integer or \<open>NaN\<close>; the code only asks whether a number is truthy
    and what \<open>typeof\<close> says, and a fraction behaves like a non-zero integer there;
  \<^item> values are trees: no object is reachable from \<open>params.args\<close> along two
    different paths, so an in-place mutation is the replacement of one subtree;
  \<^item> property lists are kept in the order given; JavaScript's rule that integer-like
    keys are enumerated first is not reproduced;
  \<^item> every object that the caller passes has the prototype of its class, is extensible,
    and its own properties are writable data properties; of the inherited properties
    only the accessor \<open>__proto__\<close> of \<open>Object.prototype\<close> matters to the
    middleware (see \<open>assign_fresh\<close>): the keys that it reads by name are
    \<open>where\<close>, \<open>data\<close>, \<open>include\<close>, \<open>isDeleted\<close> and \<open>deletedAt\<close>, which
    no standard prototype has, and \<open>length\<close> of an array or a string is not
    enumerable;
  \<^item> a value records no prototype: the one object whose prototype the middleware can
    replace, the predicate rebuilt by the \<open>findUnique\<close> branch, is given by its own
    properties;
  \<^item> the files are ES modules, hence strict code: an assignment to a property of a
    primitive value throws a \<open>TypeError\<close>.
\<close>

datatype jsclass = PlainObject | ArrayObject | DateObject int

datatype jsval =
    Undefined
  | Null
  | Bool bool
  | Num int
  | NaN
  | Str string
  | Obj jsclass "(string \<times> jsval) list"

datatype error = TypeError

text \<open>Sequencing of computations that may throw.\<close>

definition bnd :: "error + 'a \<Rightarrow> ('a \<Rightarrow> error + 'b) \<Rightarrow> error + 'b" where
  "bnd m f = (case m of Inl e \<Rightarrow> Inl e | Inr x \<Rightarrow> f x)"

text \<open>\<open>typeof v\<close>.\<close>

fun typeof :: "jsval \<Rightarrow> string" where
  "typeof Undefined = ''undefined''"
| "typeof Null = ''object''"
| "typeof (Bool b) = ''boolean''"
| "typeof (Num n) = ''number''"
| "typeof NaN = ''number''"
| "typeof (Str s) = ''string''"
| "typeof (Obj c ps) = ''object''"

text \<open>The conversion to boolean of \<open>if (v)\<close> and \<open>!v\<close>.\<close>

fun truthy :: "jsval \<Rightarrow> bool" where
  "truthy Undefined = False"
| "truthy Null = False"
| "truthy (Bool b) = b"
| "truthy (Num n) = (n \<noteq> 0)"
| "truthy NaN = False"
| "truthy (Str s) = (s \<noteq> [])"
| "truthy (Obj c ps) = True"

text \<open>\<open>v == undefined\<close>, the loose comparison: true of \<open>undefined\<close> and \<open>null\<close> only.\<close>

fun nullish :: "jsval \<Rightarrow> bool" where
  "nullish Undefined = True"
| "nullish Null = True"
| "nullish v = False"

text \<open>The decimal numeral of an array or string index.\<close>

fun dec_of_nat :: "nat \<Rightarrow> string" where
  "dec_of_nat n =
     (if n < 10 then [''0123456789'' ! n]
      else dec_of_nat (n div 10) @ [''0123456789'' ! (n mod 10)])"

declare dec_of_nat.simps [simp del]

text \<open>
  The own enumerable properties of a string are its characters under their indices
  (one \<open>char\<close> here stands for one UTF-16 code unit there).
\<close>

fun str_props :: "nat \<Rightarrow> string \<Rightarrow> (string \<times> jsval) list" where
  "str_props i [] = []"
| "str_props i (c # cs) = (dec_of_nat i, Str [c]) # str_props (Suc i) cs"

text \<open>
  The own enumerable string-keyed properties of a value that is neither \<open>undefined\<close>
  nor \<open>null\<close> (after \<open>ToObject\<close>): what \<open>Object.entries\<close>, object spread and
  \<open>for ... in\<close> guarded by \<open>hasOwnProperty\<close> enumerate.
\<close>

fun own_props :: "jsval \<Rightarrow> (string \<times> jsval) list" where
  "own_props (Obj c ps) = ps"
| "own_props (Str s) = str_props 0 s"
| "own_props v = []"

text \<open>\<open>Object.entries(v)\<close> throws on \<open>undefined\<close> and \<open>null\<close>.\<close>

definition object_entries :: "jsval \<Rightarrow> error + (string \<times> jsval) list" where
  "object_entries v = (if nullish v then Inl TypeError else Inr (own_props v))"

text \<open>The property read \<open>v.k\<close> or \<open>v[k]\<close>; it throws on \<open>undefined\<close> and \<open>null\<close>.\<close>

definition lookup_prop :: "jsval \<Rightarrow> string \<Rightarrow> jsval" where
  "lookup_prop v k = (case map_of (own_props v) k of None \<Rightarrow> Undefined | Some x \<Rightarrow> x)"

definition get_prop :: "jsval \<Rightarrow> string \<Rightarrow> error + jsval" where
  "get_prop v k = (if nullish v then Inl TypeError else Inr (lookup_prop v k))"

text \<open>The optional chain \<open>v?.k\<close>.\<close>

definition get_prop_opt :: "jsval \<Rightarrow> string \<Rightarrow> jsval" where
  "get_prop_opt v k = (if nullish v then Undefined else lookup_prop v k)"

text \<open>
  The assignment \<open>v[k] = x\<close>: an existing property keeps its place, a new one is added
  last. On anything but an object it throws (strict code).
\<close>

fun set_prop :: "jsval \<Rightarrow> string \<Rightarrow> jsval \<Rightarrow> error + jsval" where
  "set_prop (Obj c ps) k x = Inr (Obj c (AList.update k x ps))"
| "set_prop v k x = Inl TypeError"

text \<open>\<open>Object.prototype.hasOwnProperty.call(v, k)\<close> throws on \<open>undefined\<close> and \<open>null\<close>.\<close>

definition has_own :: "jsval \<Rightarrow> string \<Rightarrow> error + bool" where
  "has_own v k = (if nullish v then Inl TypeError else Inr (k \<in> set (map fst (own_props v))))"

section \<open>The operation descriptor\<close>

text \<open>
  Prisma's \<open>MiddlewareParams\<close>, as far as the middleware uses it: \<open>model\<close> is an
  optional model name, \<open>action\<close> a string, \<open>args\<close> any value at all (\<open>Undefined\<close>
  when the caller passed no argument).
\<close>

record params =
  model :: "string option"
  action :: string
  args :: jsval

text \<open>
  A middleware is a function on descriptors that either throws or hands the descriptor
  on to \<open>next\<close>. Writing back a mutated sub-object of \<open>args\<close> is the tree form of
  the in-place mutation: the parent is known to be an object there, and otherwise the
  parent is left as it is.
\<close>

fun put_back :: "jsval \<Rightarrow> string \<Rightarrow> jsval \<Rightarrow> jsval" where
  "put_back (Obj c ps) k x = Obj c (AList.update k x ps)"
| "put_back v k x = v"

section \<open>The lookup middleware\<close>

text \<open>
  The \<open>findUnique\<close> branch fills the fresh object \<open>params.args.where = {}\<close> by
  assignments \<open>params.args.where[k] = v\<close> under keys taken from the caller's predicate.
  Such an assignment creates or overwrites an own property, except under the key
  \<open>__proto__\<close>: as long as the object has no own property of that name, the assignment
  looks the key up along the prototype chain, finds the accessor of
  \<open>Object.prototype\<close> and calls its setter, which makes \<open>v\<close> the prototype of the
  object when \<open>v\<close> is an object or \<open>null\<close> and does nothing otherwise. The state is
  therefore the list of own properties together with the prototype that has replaced
  \<open>Object.prototype\<close>, if any.

  The accessor is not reached when the chain ends before it (the prototype has become
  \<open>null\<close>) or when the replacing prototype has \<open>__proto__\<close> as an own data property;
  in both cases the assignment creates an own property \<open>__proto__\<close>.
\<close>

type_synonym fresh = "(string \<times> jsval) list \<times> jsval option"

fun accessor_hidden :: "jsval option \<Rightarrow> bool" where
  "accessor_hidden None = False"
| "accessor_hidden (Some (Obj c ps)) = (''__proto__'' \<in> set (map fst ps))"
| "accessor_hidden (Some v) = True"

definition assign_fresh :: "string \<Rightarrow> jsval \<Rightarrow> fresh \<Rightarrow> fresh" where
  "assign_fresh k v st =
     (if k \<noteq> ''__proto__'' \<or> k \<in> set (map fst (fst st)) \<or> accessor_hidden (snd st)
      then (AList.update k v (fst st), snd st)
      else (fst st, if typeof v = ''object'' then Some v else snd st))"

text \<open>
  The two nested loops. An entry whose \<open>typeof\<close> is not \<open>object\<close> is assigned under
  its own key; any other entry has its \<open>Object.entries\<close> assigned one by one.
\<close>

fun hoist :: "(string \<times> jsval) list \<Rightarrow> fresh \<Rightarrow> fresh" where
  "hoist [] st = st"
| "hoist ((k, v) # subargs) st = hoist subargs (assign_fresh k v st)"

fun flatten_where :: "(string \<times> jsval) list \<Rightarrow> fresh \<Rightarrow> error + fresh" where
  "flatten_where [] st = Inr st"
| "flatten_where ((k, v) # rest) st =
     (if typeof v \<noteq> ''object'' then flatten_where rest (assign_fresh k v st)
      else bnd (object_entries v) (\<lambda>subargs. flatten_where rest (hoist subargs st)))"

text \<open>
  The body of \<open>if (params.action === 'findUnique')\<close>, the same in both files up to the
  name \<open>fld\<close> and the value \<open>fv\<close> of the filter that is written last
  (\<open>deletedAt = null\<close> in \<open>middleware.ts\<close>, \<open>isDeleted = false\<close> in the fork).
\<close>

definition find_unique_block :: "string \<Rightarrow> jsval \<Rightarrow> params \<Rightarrow> error + params" where
  "find_unique_block fld fv p =
     bnd (get_prop (args p) ''where'') (\<lambda>wh.
     bnd (set_prop (args p) ''where'' (Obj PlainObject [])) (\<lambda>a1.
     bnd (object_entries wh) (\<lambda>entries.
     bnd (flatten_where entries ([], None)) (\<lambda>st.
       Inr (p\<lparr>action := ''findFirst'',
              args := put_back a1 ''where''
                        (Obj PlainObject (fst (assign_fresh fld fv st)))\<rparr>)))))"

text \<open>
  The body of \<open>if (params.action == "findMany")\<close> in \<open>middleware.ts\<close>: the two tests
  are the loose \<open>!= undefined\<close> and \<open>== undefined\<close>.
\<close>

definition find_many_block1 :: "params \<Rightarrow> error + params" where
  "find_many_block1 p =
     (let a1 = (if \<not> truthy (args p) then Obj PlainObject [] else args p);
          wh = get_prop_opt a1 ''where''
      in if \<not> nullish wh then
           bnd (get_prop wh ''deletedAt'') (\<lambda>d.
             if nullish d then
               bnd (set_prop wh ''deletedAt'' Null) (\<lambda>wh'.
                 Inr (p\<lparr>args := put_back a1 ''where'' wh'\<rparr>))
             else Inr (p\<lparr>args := a1\<rparr>))
         else
           bnd (set_prop a1 ''where'' (Obj PlainObject [(''deletedAt'', Null)])) (\<lambda>a2.
             Inr (p\<lparr>args := a2\<rparr>)))"

text \<open>
  The same body in the fork: the tests are the strict \<open>!== undefined\<close> and
  \<open>=== undefined\<close>, the filter is \<open>isDeleted = false\<close>.
\<close>

definition find_many_block2 :: "params \<Rightarrow> error + params" where
  "find_many_block2 p =
     (let a1 = (if \<not> truthy (args p) then Obj PlainObject [] else args p);
          wh = get_prop_opt a1 ''where''
      in if wh \<noteq> Undefined then
           bnd (get_prop wh ''isDeleted'') (\<lambda>d.
             if d = Undefined then
               bnd (set_prop wh ''isDeleted'' (Bool False)) (\<lambda>wh'.
                 Inr (p\<lparr>args := put_back a1 ''where'' wh'\<rparr>))
             else Inr (p\<lparr>args := a1\<rparr>))
         else
           bnd (set_prop a1 ''where'' (Obj PlainObject [(''isDeleted'', Bool False)])) (\<lambda>a2.
             Inr (p\<lparr>args := a2\<rparr>)))"

text \<open>The first \<open>$use\<close> callback of \<open>middleware.ts\<close>.\<close>

definition lookups1 :: "params \<Rightarrow> error + params" where
  "lookups1 p =
     bnd (if action p = ''findUnique'' then find_unique_block ''deletedAt'' Null p else Inr p)
       (\<lambda>p. if action p = ''findMany'' then find_many_block1 p else Inr p)"

text \<open>
  The skip list of the fork, and the test
  \<open>skipList.findIndex(val => val === x) !== -1\<close>. A descriptor without a model has
  \<open>params.model === undefined\<close>, which no entry equals.
\<close>

definition skipList :: "string list" where
  "skipList = [''expand'', ''organization'', ''parentOrganization'']"

definition in_skipList :: "string option \<Rightarrow> bool" where
  "in_skipList x = list_ex (\<lambda>val. Some val = x) skipList"

text \<open>The first \<open>$use\<close> callback of the fork.\<close>

definition lookups2 :: "params \<Rightarrow> error + params" where
  "lookups2 p =
     (if in_skipList (model p) then Inr p
      else
        bnd (if action p = ''findUnique'' then find_unique_block ''isDeleted'' (Bool False) p
             else Inr p)
          (\<lambda>p. if action p = ''findMany'' then find_many_block2 p else Inr p))"

section \<open>The update middleware of \<open>middleware.ts\<close>\<close>

text \<open>
  The second \<open>$use\<close> callback of \<open>middleware.ts\<close> (commented out in the fork, which
  leaves \<open>updatedAt\<close> to the schema). \<open>now\<close> is the time that \<open>new Date()\<close> reads.
\<close>

definition date :: "int \<Rightarrow> jsval" where
  "date now = Obj (DateObject now) []"

definition updates1 :: "int \<Rightarrow> params \<Rightarrow> error + params" where
  "updates1 now p =
     (if action p = ''updateMany'' \<or> action p = ''update'' then
        (let a1 = (if \<not> truthy (args p) then Obj PlainObject [] else args p)
         in bnd (get_prop a1 ''data'') (\<lambda>d.
            bnd (if \<not> truthy d then set_prop a1 ''data'' (Obj PlainObject []) else Inr a1) (\<lambda>a2.
            bnd (get_prop a2 ''data'') (\<lambda>d2.
            bnd (set_prop d2 ''updatedAt'' (date now)) (\<lambda>d3.
              Inr (p\<lparr>args := put_back a2 ''data'' d3\<rparr>))))))
      else Inr p)"

section \<open>The deletion middleware\<close>

text \<open>
  The third \<open>$use\<close> callback of \<open>middleware.ts\<close>; \<open>delete\<close> becomes \<open>update\<close> before
  the second test, so only one of the two branches runs.
\<close>

definition deletions1 :: "int \<Rightarrow> params \<Rightarrow> error + params" where
  "deletions1 now p =
     bnd (if action p = ''delete'' then
            bnd (set_prop (args p) ''data'' (Obj PlainObject [(''deletedAt'', date now)])) (\<lambda>a.
              Inr (p\<lparr>action := ''update'', args := a\<rparr>))
          else Inr p)
       (\<lambda>p. if action p = ''deleteMany'' then
               (let a1 = (if \<not> truthy (args p) then Obj PlainObject [] else args p);
                    d = get_prop_opt a1 ''data''
                in if \<not> nullish d then
                     bnd (set_prop d ''deletedAt'' (date now)) (\<lambda>d'.
                       Inr (p\<lparr>action := ''updateMany'', args := put_back a1 ''data'' d'\<rparr>))
                   else
                     bnd (set_prop a1 ''data'' (Obj PlainObject [(''deletedAt'', date now)])) (\<lambda>a2.
                       Inr (p\<lparr>action := ''updateMany'', args := a2\<rparr>)))
             else Inr p)"

text \<open>The second \<open>$use\<close> callback of the fork.\<close>

definition tombstone :: "int \<Rightarrow> jsval" where
  "tombstone now = Obj PlainObject [(''isDeleted'', Bool True), (''deletedAt'', date now)]"

definition deletions2 :: "int \<Rightarrow> params \<Rightarrow> error + params" where
  "deletions2 now p =
     (if in_skipList (model p) then Inr p
      else
        bnd (if action p = ''delete'' then
               bnd (set_prop (args p) ''data'' (tombstone now)) (\<lambda>a.
                 Inr (p\<lparr>action := ''update'', args := a\<rparr>))
             else Inr p)
          (\<lambda>p. if action p = ''deleteMany'' then
                  (let a1 = (if \<not> truthy (args p) then Obj PlainObject [] else args p);
                       d = get_prop_opt a1 ''data''
                   in if \<not> nullish d then
                        bnd (set_prop d ''isDeleted'' (Bool True)) (\<lambda>d1.
                        bnd (set_prop d1 ''deletedAt'' (date now)) (\<lambda>d2.
                          Inr (p\<lparr>action := ''updateMany'', args := put_back a1 ''data'' d2\<rparr>)))
                      else
                        bnd (set_prop a1 ''data'' (tombstone now)) (\<lambda>a2.
                          Inr (p\<lparr>action := ''updateMany'', args := a2\<rparr>)))
                else Inr p))"

section \<open>The include middleware of the fork\<close>

definition not_deleted :: jsval where
  "not_deleted = Obj PlainObject [(''isDeleted'', Bool False)]"

text \<open>
  What one iteration assigns to \<open>include[key]\<close>, if anything, for the value
  \<open>element\<close> found there. The two \<open>typeof\<close> tests are separate statements over the
  same constant \<open>element\<close>, so at most one of them holds.
\<close>

definition rewrite_element :: "jsval \<Rightarrow> error + jsval option" where
  "rewrite_element element =
     (if truthy element then
        (let r1 = (if typeof element = ''boolean''
                   then Some (Obj PlainObject [(''where'', not_deleted)]) else None)
         in if typeof element = ''object'' then
              bnd (has_own element ''where'') (\<lambda>hw.
                if \<not> hw then
                  Inr (Some (Obj PlainObject
                         (AList.update ''where'' not_deleted (own_props element))))
                else
                  bnd (get_prop element ''where'') (\<lambda>wh.
                  bnd (has_own wh ''isDeleted'') (\<lambda>hd.
                    if \<not> hd then
                      Inr (Some (Obj PlainObject (AList.update ''where''
                             (Obj PlainObject
                                (AList.update ''isDeleted'' (Bool False) (own_props wh)))
                             (own_props element))))
                    else Inr r1)))
            else Inr r1)
      else Inr None)"

text \<open>
  The \<open>for (const key in include)\<close> loop over the own keys, with the object
  \<open>include\<close> as the state.
\<close>

fun include_loop :: "string list \<Rightarrow> jsval \<Rightarrow> error + jsval" where
  "include_loop [] inc = Inr inc"
| "include_loop (key # keys) inc =
     (if in_skipList (Some key) then include_loop keys inc
      else
        bnd (rewrite_element (lookup_prop inc key)) (\<lambda>r.
          case r of
            None \<Rightarrow> include_loop keys inc
          | Some x \<Rightarrow> bnd (set_prop inc key x) (include_loop keys)))"

text \<open>
  The value found under a visited key after the loop: the value assigned there, or the
  old one where nothing is assigned.
\<close>

abbreviation settled :: "jsval \<Rightarrow> jsval" where
  "settled e \<equiv> (case rewrite_element e of Inl err \<Rightarrow> e | Inr None \<Rightarrow> e | Inr (Some x) \<Rightarrow> x)"

text \<open>
  The third \<open>$use\<close> callback of the fork. \<open>const {include} = params.args\<close> throws when
  \<open>params.args\<close> is \<open>undefined\<close> or \<open>null\<close>.
\<close>

definition includes2 :: "params \<Rightarrow> error + params" where
  "includes2 p =
     bnd (get_prop (args p) ''include'') (\<lambda>inc.
       if truthy inc then
         bnd (include_loop (map fst (own_props inc)) inc) (\<lambda>inc'.
           Inr (p\<lparr>args := put_back (args p) ''include'' inc'\<rparr>))
       else Inr p)"

text \<open>
  The shape that the \<open>findMany\<close> branch leaves behind: \<open>args\<close> is an object whose
  \<open>where\<close> is an object in which the filter field \<open>fld\<close> has a value other than
  \<open>undefined\<close>.
\<close>

abbreviation has_filter :: "string \<Rightarrow> jsval \<Rightarrow> bool" where
  "has_filter fld a \<equiv>
     (\<exists>c ps cw ws v. a = Obj c ps \<and> map_of ps ''where'' = Some (Obj cw ws) \<and>
        map_of ws fld = Some v \<and> v \<noteq> Undefined)"

section \<open>The chains\<close>

text \<open>
  Prisma runs the middlewares in the order of their \<open>$use\<close> calls, each handing its
  descriptor to the next and the last to the query engine.
\<close>

definition applyMiddleware1 :: "int \<Rightarrow> params \<Rightarrow> error + params" where
  "applyMiddleware1 now p = bnd (lookups1 p) (\<lambda>p1. bnd (updates1 now p1) (deletions1 now))"

definition applyMiddleware2 :: "int \<Rightarrow> params \<Rightarrow> error + params" where
  "applyMiddleware2 now p = bnd (lookups2 p) (\<lambda>p1. bnd (deletions2 now p1) includes2)"

section \<open>Auxiliary facts\<close>

lemma bnd_Inr [simp]: "bnd (Inr x) f = f x"
  by (simp add: bnd_def)

lemma bnd_Inl [simp]: "bnd (Inl e) f = Inl e"
  by (simp add: bnd_def)

lemma bnd_eq_Inr: "bnd m f = Inr y \<longleftrightarrow> (\<exists>x. m = Inr x \<and> f x = Inr y)"
  by (cases m) simp_all

lemma lookup_prop_Obj:
  "lookup_prop (Obj c ps) k = (case map_of ps k of None \<Rightarrow> Undefined | Some x \<Rightarrow> x)"
  by (simp add: lookup_prop_def)

lemma lookup_prop_update:
  "lookup_prop (Obj c (AList.update k x ps)) k' =
     (if k' = k then x else lookup_prop (Obj c ps) k')"
  by (simp add: lookup_prop_def update_conv')

subsection \<open>The include loop\<close>

text \<open>What the include loop assigns is left alone by a later visit.\<close>

lemma rewrite_element_stable:
  "rewrite_element e = Inr (Some x) \<Longrightarrow> rewrite_element x = Inr None"
  by (auto simp: rewrite_element_def Let_def has_own_def get_prop_def lookup_prop_def
        not_deleted_def update_conv' dom_update bnd_eq_Inr split: if_splits)

lemma rewrite_element_Undefined [simp]: "rewrite_element Undefined = Inr None"
  by (simp add: rewrite_element_def)

text \<open>
  The loop over an object, key by key: the keys and their order stay, a visited key that
  is not skip-listed holds its settled value, every other key its old value, and no
  visited element made the loop throw.
\<close>

lemma include_loop_Obj:
  "include_loop ks (Obj c ps) = Inr inc' \<Longrightarrow>
     \<exists>ps'. inc' = Obj c ps' \<and> map fst ps' = map fst ps \<and>
       (\<forall>k. map_of ps' k =
              (if k \<in> set ks \<and> \<not> in_skipList (Some k)
               then map_option settled (map_of ps k) else map_of ps k)) \<and>
       (\<forall>k \<in> set ks. \<not> in_skipList (Some k) \<longrightarrow>
              rewrite_element (lookup_prop (Obj c ps) k) \<noteq> Inl TypeError)"
proof (induction ks arbitrary: ps)
  case Nil
  then show ?case by auto
next
  case (Cons k0 ks)
  show ?case
  proof (cases "in_skipList (Some k0)")
    case True
    with Cons.prems have "include_loop ks (Obj c ps) = Inr inc'" by simp
    from Cons.IH [OF this] True show ?thesis by auto
  next
    case False
    let ?e = "lookup_prop (Obj c ps) k0"
    from False Cons.prems obtain r where r: "rewrite_element ?e = Inr r"
      and rest: "(case r of None \<Rightarrow> include_loop ks (Obj c ps)
                  | Some x \<Rightarrow> include_loop ks (Obj c (AList.update k0 x ps))) = Inr inc'"
      by (auto simp: bnd_eq_Inr)
    show ?thesis
    proof (cases r)
      case None
      with rest have "include_loop ks (Obj c ps) = Inr inc'" by simp
      from Cons.IH [OF this] obtain ps' where ps': "inc' = Obj c ps'" "map fst ps' = map fst ps"
        and m: "\<forall>k. map_of ps' k =
              (if k \<in> set ks \<and> \<not> in_skipList (Some k)
               then map_option settled (map_of ps k) else map_of ps k)"
        and ok: "\<forall>k \<in> set ks. \<not> in_skipList (Some k) \<longrightarrow>
              rewrite_element (lookup_prop (Obj c ps) k) \<noteq> Inl TypeError"
        by blast
      have s: "map_option settled (map_of ps k0) = map_of ps k0"
        using r None by (cases "map_of ps k0") (simp_all add: lookup_prop_Obj)
      have "\<forall>k. map_of ps' k =
              (if k \<in> set (k0 # ks) \<and> \<not> in_skipList (Some k)
               then map_option settled (map_of ps k) else map_of ps k)"
        using m s by auto
      moreover have "\<forall>k \<in> set (k0 # ks). \<not> in_skipList (Some k) \<longrightarrow>
              rewrite_element (lookup_prop (Obj c ps) k) \<noteq> Inl TypeError"
        using ok r by simp
      ultimately show ?thesis using ps' by (intro exI [of _ ps']) simp
    next
      case (Some x)
      from r Some have rx: "rewrite_element ?e = Inr (Some x)" by simp
      have e: "map_of ps k0 = Some ?e"
        using rx by (cases "map_of ps k0") (simp_all add: lookup_prop_Obj)
      then have k0: "k0 \<in> set (map fst ps)"
        by (metis map_of_eq_None_iff option.distinct(1) set_map)
      from rest Some have "include_loop ks (Obj c (AList.update k0 x ps)) = Inr inc'" by simp
      from Cons.IH [OF this] obtain ps' where ps': "inc' = Obj c ps'"
        "map fst ps' = map fst (AList.update k0 x ps)"
        and m: "\<forall>k. map_of ps' k =
              (if k \<in> set ks \<and> \<not> in_skipList (Some k)
               then map_option settled (map_of (AList.update k0 x ps) k)
               else map_of (AList.update k0 x ps) k)"
        and ok: "\<forall>k \<in> set ks. \<not> in_skipList (Some k) \<longrightarrow>
              rewrite_element (lookup_prop (Obj c (AList.update k0 x ps)) k) \<noteq> Inl TypeError"
        by blast
      have keys: "map fst ps' = map fst ps"
        using ps'(2) k0 by (simp add: update_keys)
      have sx: "settled x = x"
        using rewrite_element_stable [OF rx] by simp
      have se: "settled ?e = x"
        using rx by simp
      have "\<forall>k. map_of ps' k =
              (if k \<in> set (k0 # ks) \<and> \<not> in_skipList (Some k)
               then map_option settled (map_of ps k) else map_of ps k)"
      proof
        fix k
        show "map_of ps' k =
              (if k \<in> set (k0 # ks) \<and> \<not> in_skipList (Some k)
               then map_option settled (map_of ps k) else map_of ps k)"
        proof (cases "k = k0")
          case True
          have "map_of ps' k0 = Some x"
            using m [rule_format, of k0] sx by (simp add: update_conv')
          then show ?thesis using True False by (simp add: e se)
        next
          case False
          then show ?thesis using m [rule_format, of k] by (simp add: update_conv')
        qed
      qed
      moreover have "\<forall>k \<in> set (k0 # ks). \<not> in_skipList (Some k) \<longrightarrow>
              rewrite_element (lookup_prop (Obj c ps) k) \<noteq> Inl TypeError"
      proof (intro ballI impI)
        fix k
        assume k: "k \<in> set (k0 # ks)" and ns: "\<not> in_skipList (Some k)"
        show "rewrite_element (lookup_prop (Obj c ps) k) \<noteq> Inl TypeError"
        proof (cases "k = k0")
          case True
          then show ?thesis using rx by simp
        next
          case False
          with k have "k \<in> set ks" by simp
          with ok ns
          have "rewrite_element (lookup_prop (Obj c (AList.update k0 x ps)) k) \<noteq> Inl TypeError"
            by blast
          then show ?thesis using False by (simp add: lookup_prop_update)
        qed
      qed
      ultimately show ?thesis using ps'(1) keys by (intro exI [of _ ps']) simp
    qed
  qed
qed

lemma update_absent: "k \<notin> fst ` set ps \<Longrightarrow> AList.update k x ps = ps @ [(k, x)]"
  by (induction ps) auto

text \<open>The equations that evaluate the middlewares on a concrete descriptor.\<close>

lemmas run_simps =
  includes2_def lookups2_def lookups1_def deletions2_def deletions1_def updates1_def
  applyMiddleware1_def applyMiddleware2_def find_unique_block_def assign_fresh_def
  find_many_block1_def
  find_many_block2_def rewrite_element_def get_prop_def get_prop_opt_def lookup_prop_def
  has_own_def object_entries_def in_skipList_def skipList_def not_deleted_def tombstone_def
  date_def Let_def

lemma rewrite_element_falsy: "\<not> truthy v \<Longrightarrow> rewrite_element v = Inr None"
  by (simp add: rewrite_element_def)

text \<open>An entry whose value is \<open>null\<close> makes the flattening loop throw, wherever it stands.\<close>

lemma error_is_TypeError: "(e::error) = TypeError"
  by (cases e) simp

lemma flatten_where_null: "(k, Null) \<in> set ws \<Longrightarrow> flatten_where ws st = Inl TypeError"
proof (induction ws arbitrary: st)
  case Nil
  then show ?case by simp
next
  case (Cons a ws)
  obtain k' v where a: "a = (k', v)" by (cases a)
  show ?case
  proof (cases "v = Null")
    case True
    then show ?thesis using a by (simp add: object_entries_def)
  next
    case False
    with Cons.prems a have "(k, Null) \<in> set ws" by auto
    from Cons.IH [OF this] show ?thesis
      using a by (cases "object_entries v") (simp_all add: error_is_TypeError)
  qed
qed

subsection \<open>The properties of a string\<close>

text \<open>
  The own keys of a string are decimal numerals, so a string has none of the properties
  that the middleware reads by name.
\<close>

lemma digit_char: "d < 10 \<Longrightarrow> ''0123456789'' ! d \<in> set ''0123456789''"
  by (rule nth_mem) simp

lemma dec_of_nat_digits: "set (dec_of_nat n) \<subseteq> set ''0123456789''"
proof (induction n rule: dec_of_nat.induct)
  case (1 n)
  show ?case
  proof (cases "n < 10")
    case True
    then show ?thesis using digit_char [of n] by (subst dec_of_nat.simps) simp
  next
    case False
    have "n mod 10 < 10" by simp
    from digit_char [OF this] 1 [OF False] False show ?thesis
      by (subst dec_of_nat.simps) simp
  qed
qed

lemma str_props_keys: "k \<in> fst ` set (str_props i s) \<Longrightarrow> set k \<subseteq> set ''0123456789''"
  by (induction s arbitrary: i) (auto dest: subsetD [OF dec_of_nat_digits])

lemma lookup_prop_not_Obj:
  assumes "\<forall>c ps. v \<noteq> Obj c ps" and "\<not> set k \<subseteq> set ''0123456789''"
  shows "lookup_prop v k = Undefined"
proof (cases v)
  case (Str s)
  have "map_of (str_props 0 s) k = None"
    using str_props_keys [of k 0 s] assms(2) by (auto simp: map_of_eq_None_iff)
  then show ?thesis using Str by (simp add: lookup_prop_def)
qed (use assms(1) in \<open>simp_all add: lookup_prop_def\<close>)

subsection \<open>The include middleware as a whole\<close>

text \<open>On anything but an object the loop assigns nothing.\<close>

lemma include_loop_not_Obj:
  "\<forall>c ps. inc \<noteq> Obj c ps \<Longrightarrow> include_loop ks inc = Inr inc' \<Longrightarrow> inc' = inc"
proof (induction ks)
  case Nil
  then show ?case by simp
next
  case (Cons k ks)
  have s: "set_prop inc k x = Inl TypeError" for x
    using Cons.prems(1) by (cases inc) simp_all
  show ?case
  proof (cases "in_skipList (Some k)")
    case True
    with Cons show ?thesis by simp
  next
    case False
    with Cons.prems(2) obtain r where r: "rewrite_element (lookup_prop inc k) = Inr r"
      and rest: "(case r of None \<Rightarrow> include_loop ks inc
                  | Some x \<Rightarrow> bnd (set_prop inc k x) (include_loop ks)) = Inr inc'"
      by (auto simp: bnd_eq_Inr)
    show ?thesis
    proof (cases r)
      case None
      with rest Cons show ?thesis by simp
    next
      case (Some x)
      with rest s show ?thesis by simp
    qed
  qed
qed

text \<open>A loop over settled elements changes nothing.\<close>

lemma include_loop_stable:
  "\<forall>k \<in> set ks. \<not> in_skipList (Some k) \<longrightarrow> rewrite_element (lookup_prop inc k) = Inr None
     \<Longrightarrow> include_loop ks inc = Inr inc"
  by (induction ks) simp_all

lemma settled_stable:
  "rewrite_element e \<noteq> Inl TypeError \<Longrightarrow> rewrite_element (settled e) = Inr None"
proof (cases "rewrite_element e")
  case (Inl a)
  assume "rewrite_element e \<noteq> Inl TypeError"
  with Inl show ?thesis by (simp add: error_is_TypeError)
next
  case (Inr r)
  then show ?thesis
    by (cases r) (simp_all add: rewrite_element_stable)
qed


text \<open>
  The middleware on a descriptor whose \<open>include\<close> is an object: the loop's result is
  written back, and a second run of the loop leaves it as it is.
\<close>

lemma includes2_Obj:
  assumes a: "args p = Obj c ps" and i: "map_of ps ''include'' = Some (Obj ci ips)"
    and r: "includes2 p = Inr p'"
  shows "\<exists>ips'. p' = p\<lparr>args := Obj c (AList.update ''include'' (Obj ci ips') ps)\<rparr> \<and>
           lookup_prop (args p') ''include'' = Obj ci ips' \<and>
           map fst ips' = map fst ips \<and>
           (\<forall>k. map_of ips' k =
              (if in_skipList (Some k) then map_of ips k
               else map_option settled (map_of ips k))) \<and>
           include_loop (map fst ips') (Obj ci ips') = Inr (Obj ci ips')"
proof -
  have inc: "lookup_prop (args p) ''include'' = Obj ci ips"
    using a i by (simp add: lookup_prop_Obj)
  from r a inc obtain inc' where l: "include_loop (map fst ips) (Obj ci ips) = Inr inc'"
    and p': "p' = p\<lparr>args := put_back (args p) ''include'' inc'\<rparr>"
    by (auto simp: includes2_def get_prop_def bnd_eq_Inr)
  from include_loop_Obj [OF l] obtain ips' where ips': "inc' = Obj ci ips'"
    "map fst ips' = map fst ips"
    and m: "\<forall>k. map_of ips' k =
              (if k \<in> set (map fst ips) \<and> \<not> in_skipList (Some k)
               then map_option settled (map_of ips k) else map_of ips k)"
    and ok: "\<forall>k \<in> set (map fst ips). \<not> in_skipList (Some k) \<longrightarrow>
              rewrite_element (lookup_prop (Obj ci ips) k) \<noteq> Inl TypeError"
    by blast
  have m': "\<forall>k. map_of ips' k =
              (if in_skipList (Some k) then map_of ips k
               else map_option settled (map_of ips k))"
  proof
    fix k
    show "map_of ips' k =
              (if in_skipList (Some k) then map_of ips k
               else map_option settled (map_of ips k))"
    proof (cases "k \<in> set (map fst ips)")
      case True
      then show ?thesis using m [rule_format, of k] by simp
    next
      case False
      then have "map_of ips k = None" by (simp add: map_of_eq_None_iff)
      then show ?thesis using m [rule_format, of k] False by simp
    qed
  qed
  have "\<forall>k \<in> set (map fst ips'). \<not> in_skipList (Some k) \<longrightarrow>
          rewrite_element (lookup_prop (Obj ci ips') k) = Inr None"
  proof (intro ballI impI)
    fix k
    assume k: "k \<in> set (map fst ips')" and ns: "\<not> in_skipList (Some k)"
    from k ips'(2) have kin: "k \<in> set (map fst ips)" by simp
    then obtain e where e: "map_of ips k = Some e"
      by (cases "map_of ips k") (simp_all add: map_of_eq_None_iff)
    then have le: "lookup_prop (Obj ci ips) k = e" by (simp add: lookup_prop_Obj)
    from ok kin ns le have "rewrite_element e \<noteq> Inl TypeError" by auto
    then have "rewrite_element (settled e) = Inr None" by (rule settled_stable)
    moreover have "lookup_prop (Obj ci ips') k = settled e"
      using m' [rule_format, of k] ns e by (simp add: lookup_prop_Obj)
    ultimately show "rewrite_element (lookup_prop (Obj ci ips') k) = Inr None" by simp
  qed
  then have "include_loop (map fst ips') (Obj ci ips') = Inr (Obj ci ips')"
    by (rule include_loop_stable)
  with m' show ?thesis using p' a ips'
    by (intro exI [of _ ips']) (simp add: lookup_prop_update)
qed

text \<open>What the include middleware can do to a descriptor that it hands on.\<close>

lemma includes2_cases:
  assumes r: "includes2 p = Inr p'"
  shows "p' = p \<or>
         (\<exists>c ps ci ips ips'. args p = Obj c ps \<and> map_of ps ''include'' = Some (Obj ci ips) \<and>
            p' = p\<lparr>args := Obj c (AList.update ''include'' (Obj ci ips') ps)\<rparr>)"
proof (cases "truthy (lookup_prop (args p) ''include'')")
  case False
  with r show ?thesis by (auto simp: includes2_def get_prop_def bnd_eq_Inr split: if_splits)
next
  case True
  let ?inc = "lookup_prop (args p) ''include''"
  from r True obtain inc' where l: "include_loop (map fst (own_props ?inc)) ?inc = Inr inc'"
    and p': "p' = p\<lparr>args := put_back (args p) ''include'' inc'\<rparr>"
    by (auto simp: includes2_def get_prop_def bnd_eq_Inr split: if_splits)
  show ?thesis
  proof (cases "\<exists>c ps. args p = Obj c ps")
    case False
    then have "put_back (args p) ''include'' inc' = args p" by (cases "args p") simp_all
    with p' show ?thesis by simp
  next
    case True
    then obtain c ps where a: "args p = Obj c ps" by blast
    from \<open>truthy ?inc\<close> a have i: "map_of ps ''include'' = Some ?inc"
      by (cases "map_of ps ''include''") (simp_all add: lookup_prop_Obj)
    show ?thesis
    proof (cases "\<exists>ci ips. ?inc = Obj ci ips")
      case True
      then obtain ci ips where o: "?inc = Obj ci ips" by blast
      from includes2_Obj [OF a i [unfolded o] r] a i o show ?thesis by auto
    next
      case False
      then have "inc' = ?inc" using include_loop_not_Obj [OF _ l] by blast
      with p' a i have "p' = p" by (simp add: update_triv)
      then show ?thesis by simp
    qed
  qed
qed

lemma includes2_idem: "includes2 p = Inr p' \<Longrightarrow> includes2 p' = Inr p'"
proof -
  assume r: "includes2 p = Inr p'"
  show ?thesis
  proof (cases "p' = p")
    case True
    with r show ?thesis by simp
  next
    case False
    with includes2_cases [OF r] obtain c ps ci ips where a: "args p = Obj c ps"
      and i: "map_of ps ''include'' = Some (Obj ci ips)" by blast
    from includes2_Obj [OF a i r] obtain ips'
      where p': "p' = p\<lparr>args := Obj c (AList.update ''include'' (Obj ci ips') ps)\<rparr>"
        and s: "include_loop (map fst ips') (Obj ci ips') = Inr (Obj ci ips')"
      by blast
    show ?thesis
      by (simp add: p' includes2_def get_prop_def lookup_prop_update s)
  qed
qed

lemma includes2_frame:
  assumes "includes2 p = Inr p'"
  shows "model p' = model p \<and> action p' = action p \<and>
         (\<forall>k. k \<noteq> ''include'' \<longrightarrow> lookup_prop (args p') k = lookup_prop (args p) k)"
  using includes2_cases [OF assms] by (auto simp: lookup_prop_update)

subsection \<open>The \<open>findMany\<close> branch\<close>

lemma where_not_index: "\<not> set ''where'' \<subseteq> set ''0123456789''"
  by simp

lemma isDeleted_not_index: "\<not> set ''isDeleted'' \<subseteq> set ''0123456789''"
  by simp

lemma deletedAt_not_index: "\<not> set ''deletedAt'' \<subseteq> set ''0123456789''"
  by simp

lemma truthy_not_nullish: "truthy v \<Longrightarrow> \<not> nullish v"
  by (cases v) simp_all

lemma set_prop_eq_Inr: "set_prop v k x = Inr y \<longleftrightarrow> (\<exists>c ps. v = Obj c ps \<and> y = Obj c (AList.update k x ps))"
  by (cases v) auto

lemma lookup_prop_defined_Obj:
  assumes "lookup_prop v k \<noteq> Undefined" and "\<not> set k \<subseteq> set ''0123456789''"
  shows "\<exists>c ps. v = Obj c ps \<and> map_of ps k = Some (lookup_prop v k)"
proof -
  from assms lookup_prop_not_Obj [of v k] obtain c ps where v: "v = Obj c ps" by blast
  with assms(1) show ?thesis by (cases "map_of ps k") (simp_all add: lookup_prop_Obj)
qed

text \<open>
  When the \<open>findMany\<close> branch hands a descriptor on, its filter is in place; and on
  a descriptor whose filter is in place the branch changes nothing.
\<close>

lemma find_many_block2_result:
  assumes r: "find_many_block2 p = Inr q"
  shows "model q = model p \<and> action q = action p \<and> has_filter ''isDeleted'' (args q)"
proof -
  define a1 where "a1 = (if \<not> truthy (args p) then Obj PlainObject [] else args p)"
  have t: "truthy a1" by (simp add: a1_def)
  then have nn: "\<not> nullish a1" by (rule truthy_not_nullish)
  let ?wh = "lookup_prop a1 ''where''"
  show ?thesis
  proof (cases "?wh = Undefined")
    case True
    with r nn obtain a2 where a2: "set_prop a1 ''where'' (Obj PlainObject [(''isDeleted'', Bool False)]) = Inr a2"
      and q: "q = p\<lparr>args := a2\<rparr>"
      by (auto simp: find_many_block2_def a1_def [symmetric] get_prop_opt_def bnd_eq_Inr)
    from a2 obtain c ps where "a2 = Obj c (AList.update ''where'' (Obj PlainObject [(''isDeleted'', Bool False)]) ps)"
      by (auto simp: set_prop_eq_Inr)
    then have "has_filter ''isDeleted'' a2" by (simp add: update_conv')
    with q show ?thesis by simp
  next
    case False
    from lookup_prop_defined_Obj [OF False where_not_index] obtain c ps
      where a: "a1 = Obj c ps" and w: "map_of ps ''where'' = Some ?wh" by blast
    let ?d = "lookup_prop ?wh ''isDeleted''"
    from r False nn have r': "bnd (get_prop ?wh ''isDeleted'') (\<lambda>d.
             if d = Undefined then
               bnd (set_prop ?wh ''isDeleted'' (Bool False)) (\<lambda>wh'.
                 Inr (p\<lparr>args := put_back a1 ''where'' wh'\<rparr>))
             else Inr (p\<lparr>args := a1\<rparr>)) = Inr q"
      by (simp add: find_many_block2_def a1_def [symmetric] get_prop_opt_def Let_def
            cong del: if_weak_cong)
    show ?thesis
    proof (cases "?d = Undefined")
      case True
      with r' obtain wh' where s: "set_prop ?wh ''isDeleted'' (Bool False) = Inr wh'"
        and q: "q = p\<lparr>args := put_back a1 ''where'' wh'\<rparr>"
        by (auto simp: bnd_eq_Inr get_prop_def split: if_splits)
      from s obtain cw ws where "wh' = Obj cw (AList.update ''isDeleted'' (Bool False) ws)"
        by (auto simp: set_prop_eq_Inr)
      then have "has_filter ''isDeleted'' (put_back a1 ''where'' wh')"
        using a by (simp add: update_conv')
      with q show ?thesis by simp
    next
      case False
      with r' have q: "q = p\<lparr>args := a1\<rparr>"
        by (auto simp: bnd_eq_Inr get_prop_def split: if_splits)
      from lookup_prop_defined_Obj [OF False isDeleted_not_index] obtain cw ws
        where "?wh = Obj cw ws" and "map_of ws ''isDeleted'' = Some ?d" by blast
      with a w False have "has_filter ''isDeleted'' a1" by simp
      with q show ?thesis by simp
    qed
  qed
qed

lemma find_many_block2_fixed:
  "has_filter ''isDeleted'' (args q) \<Longrightarrow> find_many_block2 q = Inr q"
  by (auto simp: find_many_block2_def get_prop_opt_def get_prop_def lookup_prop_Obj)


lemma find_many_block1_result:
  assumes r: "find_many_block1 p = Inr q"
  shows "model q = model p \<and> action q = action p \<and> has_filter ''deletedAt'' (args q)"
proof -
  define a1 where "a1 = (if \<not> truthy (args p) then Obj PlainObject [] else args p)"
  have t: "truthy a1" by (simp add: a1_def)
  then have nn: "\<not> nullish a1" by (rule truthy_not_nullish)
  let ?wh = "lookup_prop a1 ''where''"
  show ?thesis
  proof (cases "nullish ?wh")
    case True
    with r nn obtain a2 where a2: "set_prop a1 ''where'' (Obj PlainObject [(''deletedAt'', Null)]) = Inr a2"
      and q: "q = p\<lparr>args := a2\<rparr>"
      by (auto simp: find_many_block1_def a1_def [symmetric] get_prop_opt_def bnd_eq_Inr)
    from a2 obtain c ps where "a2 = Obj c (AList.update ''where'' (Obj PlainObject [(''deletedAt'', Null)]) ps)"
      by (auto simp: set_prop_eq_Inr)
    then have "has_filter ''deletedAt'' a2" by (simp add: update_conv')
    with q show ?thesis by simp
  next
    case False
    then have "?wh \<noteq> Undefined" by auto
    from lookup_prop_defined_Obj [OF this where_not_index] obtain c ps
      where a: "a1 = Obj c ps" and w: "map_of ps ''where'' = Some ?wh" by blast
    let ?d = "lookup_prop ?wh ''deletedAt''"
    from r False nn have r': "(if nullish ?d then
               bnd (set_prop ?wh ''deletedAt'' Null) (\<lambda>wh'.
                 Inr (p\<lparr>args := put_back a1 ''where'' wh'\<rparr>))
             else Inr (p\<lparr>args := a1\<rparr>)) = Inr q"
      by (simp add: find_many_block1_def a1_def [symmetric] get_prop_opt_def get_prop_def Let_def
            cong del: if_weak_cong)
    show ?thesis
    proof (cases "nullish ?d")
      case True
      with r' obtain wh' where s: "set_prop ?wh ''deletedAt'' Null = Inr wh'"
        and q: "q = p\<lparr>args := put_back a1 ''where'' wh'\<rparr>"
        by (auto simp: bnd_eq_Inr)
      from s obtain cw ws where "wh' = Obj cw (AList.update ''deletedAt'' Null ws)"
        by (auto simp: set_prop_eq_Inr)
      then have "has_filter ''deletedAt'' (put_back a1 ''where'' wh')"
        using a by (simp add: update_conv')
      with q show ?thesis by simp
    next
      case False
      with r' have q: "q = p\<lparr>args := a1\<rparr>" by simp
      from False have "?d \<noteq> Undefined" by auto
      from lookup_prop_defined_Obj [OF this deletedAt_not_index] obtain cw ws
        where "?wh = Obj cw ws" and "map_of ws ''deletedAt'' = Some ?d" by blast
      with a w \<open>?d \<noteq> Undefined\<close> have "has_filter ''deletedAt'' a1" by simp
      with q show ?thesis by simp
    qed
  qed
qed

lemma find_many_block1_fixed:
  assumes "has_filter ''deletedAt'' (args q)"
  shows "find_many_block1 q = Inr q"
proof -
  from assms obtain c ps cw ws v where a: "args q = Obj c ps"
    and w: "map_of ps ''where'' = Some (Obj cw ws)"
    and d: "map_of ws ''deletedAt'' = Some v" and v: "v \<noteq> Undefined"
    by blast
  show ?thesis
  proof (cases "nullish v")
    case True
    with v have "v = Null" by (cases v) simp_all
    with a w d show ?thesis
      by (simp add: find_many_block1_def get_prop_opt_def get_prop_def lookup_prop_Obj
            update_triv Let_def)
  next
    case False
    with a w d show ?thesis
      by (simp add: find_many_block1_def get_prop_opt_def get_prop_def lookup_prop_Obj Let_def)
  qed
qed

lemma includes2_has_filter:
  assumes "includes2 q = Inr q'" and "has_filter fld (args q)"
  shows "has_filter fld (args q')"
  using includes2_cases [OF assms(1)] assms(2) by (auto simp: update_conv')

subsection \<open>The \<open>findUnique\<close> branch\<close>

text \<open>Under any other key than \<open>__proto__\<close> the assignment is an ordinary one.\<close>

lemma assign_fresh_plain:
  "k \<noteq> ''__proto__'' \<Longrightarrow> assign_fresh k v st = (AList.update k v (fst st), snd st)"
  by (simp add: assign_fresh_def)

text \<open>Entries under distinct ordinary keys are assigned one after the other.\<close>

lemma hoist_plain:
  "''__proto__'' \<notin> set (map fst es) \<Longrightarrow> distinct (map fst (w @ es))
     \<Longrightarrow> hoist es (w, pr) = (w @ es, pr)"
proof (induction es arbitrary: w)
  case Nil
  then show ?case by simp
next
  case (Cons a es)
  obtain k v where a: "a = (k, v)" by (cases a)
  from Cons.prems a have k: "k \<noteq> ''__proto__''" "k \<notin> fst ` set w"
    and n: "''__proto__'' \<notin> set (map fst es)"
    and d: "distinct (map fst ((w @ [(k, v)]) @ es))" by auto
  from Cons.IH [OF n d] show ?case using a k by (simp add: assign_fresh_plain update_absent)
qed

lemma flatten_where_scalars:
  "\<forall>(k, v) \<in> set ws. typeof v \<noteq> ''object'' \<Longrightarrow> ''__proto__'' \<notin> set (map fst ws)
     \<Longrightarrow> distinct (map fst (w @ ws)) \<Longrightarrow> flatten_where ws (w, pr) = Inr (w @ ws, pr)"
proof (induction ws arbitrary: w)
  case Nil
  then show ?case by simp
next
  case (Cons a ws)
  obtain k v where a: "a = (k, v)" by (cases a)
  from Cons.prems a have k: "k \<noteq> ''__proto__''" "k \<notin> fst ` set w"
    and n: "''__proto__'' \<notin> set (map fst ws)"
    and d: "distinct (map fst ((w @ [(k, v)]) @ ws))"
    and s: "\<forall>(k, v) \<in> set ws. typeof v \<noteq> ''object''" and t: "typeof v \<noteq> ''object''"
    by auto
  from Cons.IH [OF s n d] show ?case using a t k by (simp add: assign_fresh_plain update_absent)
qed

text \<open>
  What holds of the \<open>findUnique\<close> branch on a descriptor whose \<open>args\<close> is an object:
  a composite-key predicate \<open>{k1_..._kn: {k1: v1, ..., kn: vn}}\<close> becomes the plain
  object of the inner entries with the filter assigned, and a predicate all of whose
  entries have a \<open>typeof\<close> other than \<open>object\<close> keeps its entries, with the filter
  assigned. Keys are distinct and none is \<open>__proto__\<close>.
\<close>

lemma find_unique_block_result:
  assumes "args p = Obj c ps" and "map_of ps ''where'' = Some (Obj cw ws)"
    and "flatten_where ws ([], None) = Inr (w, pr)" and "fld \<noteq> ''__proto__''"
  shows "find_unique_block fld fv p = Inr (p\<lparr>action := ''findFirst'',
           args := Obj c (AList.update ''where'' (Obj PlainObject (AList.update fld fv w)) ps)\<rparr>)"
  using assms
  by (simp add: find_unique_block_def get_prop_def lookup_prop_Obj object_entries_def
        assign_fresh_plain)

lemma lookups_find_unique:
  assumes "action p = ''findUnique''"
  shows "\<not> in_skipList (model p) \<Longrightarrow> lookups2 p = find_unique_block ''isDeleted'' (Bool False) p"
    and "lookups1 p = find_unique_block ''deletedAt'' Null p"
proof -
  show "lookups2 p = find_unique_block ''isDeleted'' (Bool False) p" if "\<not> in_skipList (model p)"
    using that assms
    by (cases "find_unique_block ''isDeleted'' (Bool False) p")
       (auto simp: lookups2_def find_unique_block_def bnd_eq_Inr)
  show "lookups1 p = find_unique_block ''deletedAt'' Null p"
    using assms
    by (cases "find_unique_block ''deletedAt'' Null p")
       (auto simp: lookups1_def find_unique_block_def bnd_eq_Inr)
qed

lemma find_unique_composite_key:
  assumes "action p = ''findUnique''" and "args p = Obj c ps"
    and "map_of ps ''where'' = Some (Obj cw [(outer, Obj ck cols)])"
    and "distinct (map fst cols)" and "''__proto__'' \<notin> set (map fst cols)"
  shows "\<not> in_skipList (model p) \<Longrightarrow>
           lookups2 p = Inr (p\<lparr>action := ''findFirst'', args := Obj c (AList.update ''where''
             (Obj PlainObject (AList.update ''isDeleted'' (Bool False) cols)) ps)\<rparr>)"
    and "lookups1 p = Inr (p\<lparr>action := ''findFirst'', args := Obj c (AList.update ''where''
             (Obj PlainObject (AList.update ''deletedAt'' Null cols)) ps)\<rparr>)"
proof -
  have "hoist cols ([], None) = (cols, None)"
    using hoist_plain [of cols "[]" None] assms(4,5) by simp
  then have f: "flatten_where [(outer, Obj ck cols)] ([], None) = Inr (cols, None)"
    by (simp add: object_entries_def)
  show "lookups2 p = Inr (p\<lparr>action := ''findFirst'', args := Obj c (AList.update ''where''
             (Obj PlainObject (AList.update ''isDeleted'' (Bool False) cols)) ps)\<rparr>)"
    if "\<not> in_skipList (model p)"
    using lookups_find_unique(1) [OF assms(1) that]
      find_unique_block_result [OF assms(2,3) f, of "''isDeleted''"] by simp
  show "lookups1 p = Inr (p\<lparr>action := ''findFirst'', args := Obj c (AList.update ''where''
             (Obj PlainObject (AList.update ''deletedAt'' Null cols)) ps)\<rparr>)"
    using lookups_find_unique(2) [OF assms(1)]
      find_unique_block_result [OF assms(2,3) f, of "''deletedAt''"] by simp
qed

lemma find_unique_primitive_entries:
  assumes "action p = ''findUnique''" and "args p = Obj c ps"
    and "map_of ps ''where'' = Some (Obj cw ws)"
    and "distinct (map fst ws)" and "''__proto__'' \<notin> set (map fst ws)"
    and "\<forall>(k, v) \<in> set ws. typeof v \<noteq> ''object''"
  shows "\<not> in_skipList (model p) \<Longrightarrow>
           lookups2 p = Inr (p\<lparr>action := ''findFirst'', args := Obj c (AList.update ''where''
             (Obj PlainObject (AList.update ''isDeleted'' (Bool False) ws)) ps)\<rparr>)"
    and "lookups1 p = Inr (p\<lparr>action := ''findFirst'', args := Obj c (AList.update ''where''
             (Obj PlainObject (AList.update ''deletedAt'' Null ws)) ps)\<rparr>)"
proof -
  have f: "flatten_where ws ([], None) = Inr (ws, None)"
    using flatten_where_scalars [of ws "[]" None] assms(4,5,6) by simp
  show "lookups2 p = Inr (p\<lparr>action := ''findFirst'', args := Obj c (AList.update ''where''
             (Obj PlainObject (AList.update ''isDeleted'' (Bool False) ws)) ps)\<rparr>)"
    if "\<not> in_skipList (model p)"
    using lookups_find_unique(1) [OF assms(1) that]
      find_unique_block_result [OF assms(2,3) f, of "''isDeleted''"] by simp
  show "lookups1 p = Inr (p\<lparr>action := ''findFirst'', args := Obj c (AList.update ''where''
             (Obj PlainObject (AList.update ''deletedAt'' Null ws)) ps)\<rparr>)"
    using lookups_find_unique(2) [OF assms(1)]
      find_unique_block_result [OF assms(2,3) f, of "''deletedAt''"] by simp
qed

text \<open>The filter is assigned last, whatever the predicate held.\<close>

lemma find_unique_block_filter:
  assumes "find_unique_block fld fv p = Inr p'" and "fld \<noteq> ''__proto__''"
  shows "lookup_prop (lookup_prop (args p') ''where'') fld = fv"
  using assms
  by (auto simp: find_unique_block_def bnd_eq_Inr set_prop_eq_Inr lookup_prop_update
        assign_fresh_plain)

subsection \<open>Skip-listed keys and absent includes\<close>

lemma includes2_skip_key:
  assumes r: "includes2 p = Inr p'" and k: "in_skipList (Some k)"
  shows "lookup_prop (lookup_prop (args p') ''include'') k
           = lookup_prop (lookup_prop (args p) ''include'') k"
proof (cases "p' = p")
  case True
  then show ?thesis by simp
next
  case False
  with includes2_cases [OF r] obtain c ps ci ips where a: "args p = Obj c ps"
    and i: "map_of ps ''include'' = Some (Obj ci ips)" by blast
  from includes2_Obj [OF a i r] obtain ips'
    where inc': "lookup_prop (args p') ''include'' = Obj ci ips'"
      and m: "\<forall>k. map_of ips' k =
              (if in_skipList (Some k) then map_of ips k
               else map_option settled (map_of ips k))"
    by blast
  have "map_of ips' k = map_of ips k" using m [rule_format, of k] k by simp
  moreover have "lookup_prop (args p) ''include'' = Obj ci ips"
    using a i by (simp add: lookup_prop_Obj)
  ultimately show ?thesis using inc' by (simp add: lookup_prop_Obj)
qed

lemma includes2_no_include:
  "\<not> nullish (args p) \<Longrightarrow> \<not> truthy (lookup_prop (args p) ''include'') \<Longrightarrow> includes2 p = Inr p"
  by (simp add: includes2_def get_prop_def)

subsection \<open>When the include middleware throws\<close>

lemma rewrite_element_throws:
  "rewrite_element e = Inl TypeError \<longleftrightarrow>
     (\<exists>ce es w. e = Obj ce es \<and> map_of es ''where'' = Some w \<and> nullish w)"
proof (cases e)
  case (Obj ce es)
  show ?thesis
  proof (cases "map_of es ''where''")
    case None
    then have "''where'' \<notin> set (map fst es)" by (simp add: map_of_eq_None_iff)
    with None Obj show ?thesis by (simp add: rewrite_element_def has_own_def)
  next
    case (Some w)
    then have "''where'' \<in> set (map fst es)"
      by (metis map_of_eq_None_iff option.distinct(1) set_map)
    with Some Obj show ?thesis
      by (simp add: rewrite_element_def has_own_def get_prop_def lookup_prop_Obj)
  qed
qed (simp_all add: rewrite_element_def)

lemma include_loop_succeeds:
  "\<forall>k \<in> set ks. \<not> in_skipList (Some k) \<longrightarrow>
       rewrite_element (lookup_prop (Obj c ps) k) \<noteq> Inl TypeError
     \<Longrightarrow> \<exists>inc'. include_loop ks (Obj c ps) = Inr inc'"
proof (induction ks arbitrary: ps)
  case Nil
  then show ?case by simp
next
  case (Cons k0 ks)
  from Cons.prems have rest: "\<forall>k \<in> set ks. \<not> in_skipList (Some k) \<longrightarrow>
       rewrite_element (lookup_prop (Obj c ps) k) \<noteq> Inl TypeError" by simp
  show ?case
  proof (cases "in_skipList (Some k0)")
    case True
    with Cons.IH [OF rest] show ?thesis by simp
  next
    case False
    with Cons.prems have "rewrite_element (lookup_prop (Obj c ps) k0) \<noteq> Inl TypeError" by simp
    then obtain r where r: "rewrite_element (lookup_prop (Obj c ps) k0) = Inr r"
      by (cases "rewrite_element (lookup_prop (Obj c ps) k0)") (simp_all add: error_is_TypeError)
    show ?thesis
    proof (cases r)
      case None
      with r False Cons.IH [OF rest] show ?thesis by simp
    next
      case (Some x)
      have "\<forall>k \<in> set ks. \<not> in_skipList (Some k) \<longrightarrow>
              rewrite_element (lookup_prop (Obj c (AList.update k0 x ps)) k) \<noteq> Inl TypeError"
      proof (intro ballI impI)
        fix k
        assume k: "k \<in> set ks" and ns: "\<not> in_skipList (Some k)"
        show "rewrite_element (lookup_prop (Obj c (AList.update k0 x ps)) k) \<noteq> Inl TypeError"
        proof (cases "k = k0")
          case True
          then show ?thesis
            using rewrite_element_stable [of "lookup_prop (Obj c ps) k0" x] r Some
            by (simp add: lookup_prop_update)
        next
          case False
          then show ?thesis using rest k ns by (simp add: lookup_prop_update)
        qed
      qed
      from Cons.IH [OF this] r Some False show ?thesis by simp
    qed
  qed
qed

text \<open>
  The include middleware throws on an \<open>include\<close> object exactly when some entry under
  a key that is not skip-listed is an object whose own \<open>where\<close> is \<open>null\<close> or
  \<open>undefined\<close>.
\<close>

lemma includes2_succeeds_iff:
  assumes a: "args p = Obj c ps" and i: "map_of ps ''include'' = Some (Obj ci ips)"
  shows "(\<exists>p'. includes2 p = Inr p') \<longleftrightarrow>
         (\<forall>k ce es w. \<not> in_skipList (Some k) \<longrightarrow> map_of ips k = Some (Obj ce es) \<longrightarrow>
            map_of es ''where'' = Some w \<longrightarrow> \<not> nullish w)"
proof
  assume "\<exists>p'. includes2 p = Inr p'"
  then obtain p' where r: "includes2 p = Inr p'" by blast
  have inc: "lookup_prop (args p) ''include'' = Obj ci ips"
    using a i by (simp add: lookup_prop_Obj)
  from r a inc obtain inc' where l: "include_loop (map fst ips) (Obj ci ips) = Inr inc'"
    by (auto simp: includes2_def get_prop_def bnd_eq_Inr)
  from include_loop_Obj [OF l]
  have ok: "\<forall>k \<in> set (map fst ips). \<not> in_skipList (Some k) \<longrightarrow>
              rewrite_element (lookup_prop (Obj ci ips) k) \<noteq> Inl TypeError"
    by blast
  show "\<forall>k ce es w. \<not> in_skipList (Some k) \<longrightarrow> map_of ips k = Some (Obj ce es) \<longrightarrow>
            map_of es ''where'' = Some w \<longrightarrow> \<not> nullish w"
  proof (intro allI impI)
    fix k ce es w
    assume ns: "\<not> in_skipList (Some k)" and e: "map_of ips k = Some (Obj ce es)"
      and w: "map_of es ''where'' = Some w"
    from e have "k \<in> set (map fst ips)"
      by (metis map_of_eq_None_iff option.distinct(1) set_map)
    with ok ns e have "rewrite_element (Obj ce es) \<noteq> Inl TypeError"
      by (auto simp: lookup_prop_Obj)
    with w show "\<not> nullish w" by (auto simp: rewrite_element_throws)
  qed
next
  assume wf: "\<forall>k ce es w. \<not> in_skipList (Some k) \<longrightarrow> map_of ips k = Some (Obj ce es) \<longrightarrow>
            map_of es ''where'' = Some w \<longrightarrow> \<not> nullish w"
  have "\<forall>k \<in> set (map fst ips). \<not> in_skipList (Some k) \<longrightarrow>
          rewrite_element (lookup_prop (Obj ci ips) k) \<noteq> Inl TypeError"
  proof (intro ballI impI)
    fix k
    assume "k \<in> set (map fst ips)" and ns: "\<not> in_skipList (Some k)"
    then obtain e where e: "map_of ips k = Some e"
      by (cases "map_of ips k") (simp_all add: map_of_eq_None_iff)
    with wf ns have "rewrite_element e \<noteq> Inl TypeError"
      by (auto simp: rewrite_element_throws)
    with e show "rewrite_element (lookup_prop (Obj ci ips) k) \<noteq> Inl TypeError"
      by (simp add: lookup_prop_Obj)
  qed
  from include_loop_succeeds [OF this] obtain inc'
    where "include_loop (map fst ips) (Obj ci ips) = Inr inc'" by blast
  then show "\<exists>p'. includes2 p = Inr p'"
    using a i by (simp add: includes2_def get_prop_def lookup_prop_Obj)
qed

section \<open>The claims\<close>



text \<open>
  Claim C10. For a descriptor whose \<open>args.include\<close> is an object: whenever the include
  middleware hands the descriptor on (see \<open>includes2_succeeds_iff\<close> for when it
  does), an entry whose value is falsy (\<open>false\<close>, \<open>null\<close>, \<open>undefined\<close>, and
  also \<open>0\<close>, \<open>NaN\<close>, the empty string) is still there with the same value, and the
  keys of \<open>include\<close> and their order are the same.
\<close>

theorem falsy_include_entry_unchanged:
  assumes "args p = Obj c ps" and "map_of ps ''include'' = Some (Obj ci ips)"
    and "includes2 p = Inr p'" and "map_of ips k = Some v" and "\<not> truthy v"
  shows "\<exists>ips'. lookup_prop (args p') ''include'' = Obj ci ips' \<and>
           map fst ips' = map fst ips \<and> map_of ips' k = Some v"
proof -
  from includes2_Obj [OF assms(1-3)] obtain ips'
    where inc': "lookup_prop (args p') ''include'' = Obj ci ips'"
      and keys: "map fst ips' = map fst ips"
      and m: "\<forall>k. map_of ips' k =
              (if in_skipList (Some k) then map_of ips k
               else map_option settled (map_of ips k))"
    by blast
  have "map_of ips' k = Some v"
    using m [rule_format, of k] assms(4) rewrite_element_falsy [OF assms(5)] by simp
  with inc' keys show ?thesis by blast
qed

theorem falsy_include_entry_unchanged_witness:
  "includes2 \<lparr>model = Some ''user'', action = ''findMany'',
      args = Obj PlainObject [(''include'', Obj PlainObject
               [(''posts'', Bool False), (''profile'', Null), (''tags'', Undefined),
                (''comments'', Bool True)])]\<rparr>
   = Inr \<lparr>model = Some ''user'', action = ''findMany'',
      args = Obj PlainObject [(''include'', Obj PlainObject
               [(''posts'', Bool False), (''profile'', Null), (''tags'', Undefined),
                (''comments'', Obj PlainObject
                   [(''where'', Obj PlainObject [(''isDeleted'', Bool False)])])])]\<rparr>
   \<and> \<not> truthy (Bool False)
   \<and> (\<exists>ips'. lookup_prop (Obj PlainObject [(''include'', Obj PlainObject
               [(''posts'', Bool False), (''profile'', Null), (''tags'', Undefined),
                (''comments'', Obj PlainObject
                   [(''where'', Obj PlainObject [(''isDeleted'', Bool False)])])])]) ''include''
                = Obj PlainObject ips' \<and>
              map fst ips' = [''posts'', ''profile'', ''tags'', ''comments''] \<and>
              map_of ips' ''posts'' = Some (Bool False))"
proof -
  let ?ips = "[(''posts'', Bool False), (''profile'', Null), (''tags'', Undefined),
                (''comments'', Bool True)]"
  let ?p = "\<lparr>model = Some ''user'', action = ''findMany'',
      args = Obj PlainObject [(''include'', Obj PlainObject ?ips)]\<rparr>"
  let ?p' = "\<lparr>model = Some ''user'', action = ''findMany'',
      args = Obj PlainObject [(''include'', Obj PlainObject
               [(''posts'', Bool False), (''profile'', Null), (''tags'', Undefined),
                (''comments'', Obj PlainObject
                   [(''where'', Obj PlainObject [(''isDeleted'', Bool False)])])])]\<rparr>"
  have r: "includes2 ?p = Inr ?p'" by (simp add: run_simps)
  have a: "args ?p = Obj PlainObject [(''include'', Obj PlainObject ?ips)]" by simp
  have i: "map_of [(''include'', Obj PlainObject ?ips)] ''include'' = Some (Obj PlainObject ?ips)"
    by simp
  have e: "map_of ?ips ''posts'' = Some (Bool False)" by simp
  have f: "\<not> truthy (Bool False)" by simp
  from falsy_include_entry_unchanged [OF a i r e f] r f show ?thesis by simp
qed

text \<open>
  Claim C5. The claim asks that a \<open>findUnique\<close> predicate entry whose value is
  \<open>null\<close> be copied like a scalar. The code tests \<open>typeof arg[1] !== 'object'\<close>,
  and \<open>typeof null\<close> is \<open>'object'\<close>: the entry goes to the hoisting branch, where
  \<open>Object.entries(null)\<close> throws (\<open>flatten_where_null\<close>: wherever the entry
  stands). On \<open>findUnique({where: {email: null}})\<close> both files throw a
  \<open>TypeError\<close> instead of handing on a descriptor.
\<close>

theorem find_unique_null_entry_throws:
  "lookups2 \<lparr>model = Some ''user'', action = ''findUnique'',
      args = Obj PlainObject [(''where'', Obj PlainObject [(''email'', Null)])]\<rparr> = Inl TypeError
   \<and> lookups1 \<lparr>model = Some ''user'', action = ''findUnique'',
      args = Obj PlainObject [(''where'', Obj PlainObject [(''email'', Null)])]\<rparr> = Inl TypeError"
  by (simp add: run_simps)

text \<open>
  Claim C6, as stated, fails: not every path initialises a missing \<open>params.args\<close>.
  The \<open>delete\<close> branch assigns to \<open>params.args['data']\<close>, the \<open>findUnique\<close> branch
  reads \<open>params.args.where\<close> and the include middleware destructures \<open>params.args\<close>,
  all three without the \<open>if (!params.args)\<close> guard of the \<open>findMany\<close>,
  \<open>deleteMany\<close> and \<open>update\<close> branches: each throws a \<open>TypeError\<close> when
  \<open>params.args\<close> is \<open>undefined\<close>. The last two conjuncts are the whole chain of the
  fork on \<open>findFirst()\<close> and on \<open>findMany()\<close> of a skip-listed model.
\<close>

theorem absent_args_throw:
  "deletions2 0 \<lparr>model = Some ''user'', action = ''delete'', args = Undefined\<rparr> = Inl TypeError
   \<and> deletions1 0 \<lparr>model = Some ''user'', action = ''delete'', args = Undefined\<rparr> = Inl TypeError
   \<and> lookups2 \<lparr>model = Some ''user'', action = ''findUnique'', args = Undefined\<rparr> = Inl TypeError
   \<and> lookups1 \<lparr>model = Some ''user'', action = ''findUnique'', args = Undefined\<rparr> = Inl TypeError
   \<and> includes2 \<lparr>model = Some ''user'', action = ''findFirst'', args = Undefined\<rparr> = Inl TypeError
   \<and> applyMiddleware2 0 \<lparr>model = Some ''user'', action = ''findFirst'', args = Undefined\<rparr>
       = Inl TypeError
   \<and> applyMiddleware2 0 \<lparr>model = Some ''organization'', action = ''findMany'', args = Undefined\<rparr>
       = Inl TypeError"
  by (simp add: run_simps)

text \<open>
  Claim C6, amended. The \<open>findMany\<close> and \<open>deleteMany\<close> branches of both files and the
  \<open>update\<close>/\<open>updateMany\<close> branch of \<open>middleware.ts\<close> initialise what is missing and
  hand the descriptor on: an absent (falsy) \<open>args\<close> becomes an object holding the new
  \<open>where\<close> or \<open>data\<close>, and an \<open>args\<close> object without \<open>where\<close> or \<open>data\<close>
  receives it as its last property. The \<open>delete\<close> and \<open>findUnique\<close> branches, whose
  unique predicate is mandatory, have no such guard: they throw a \<open>TypeError\<close> when
  \<open>args\<close> is \<open>undefined\<close> or \<open>null\<close>.
\<close>

theorem missing_args_initialised:
  "(action p = ''findMany'' \<longrightarrow>
      (\<not> truthy (args p) \<longrightarrow>
         (\<not> in_skipList (model p) \<longrightarrow>
            lookups2 p = Inr (p\<lparr>args := Obj PlainObject
              [(''where'', Obj PlainObject [(''isDeleted'', Bool False)])]\<rparr>))
       \<and> lookups1 p = Inr (p\<lparr>args := Obj PlainObject
              [(''where'', Obj PlainObject [(''deletedAt'', Null)])]\<rparr>))
    \<and> (\<forall>c ps. args p = Obj c ps \<longrightarrow> map_of ps ''where'' = None \<longrightarrow>
         (\<not> in_skipList (model p) \<longrightarrow>
            lookups2 p = Inr (p\<lparr>args := Obj c
              (ps @ [(''where'', Obj PlainObject [(''isDeleted'', Bool False)])])\<rparr>))
       \<and> lookups1 p = Inr (p\<lparr>args := Obj c
              (ps @ [(''where'', Obj PlainObject [(''deletedAt'', Null)])])\<rparr>)))
   \<and> (action p = ''deleteMany'' \<longrightarrow>
      (\<not> truthy (args p) \<longrightarrow>
         (\<not> in_skipList (model p) \<longrightarrow>
            deletions2 now p = Inr (p\<lparr>action := ''updateMany'', args := Obj PlainObject
              [(''data'', Obj PlainObject [(''isDeleted'', Bool True), (''deletedAt'', date now)])]\<rparr>))
       \<and> deletions1 now p = Inr (p\<lparr>action := ''updateMany'', args := Obj PlainObject
              [(''data'', Obj PlainObject [(''deletedAt'', date now)])]\<rparr>))
    \<and> (\<forall>c ps. args p = Obj c ps \<longrightarrow> map_of ps ''data'' = None \<longrightarrow>
         (\<not> in_skipList (model p) \<longrightarrow>
            deletions2 now p = Inr (p\<lparr>action := ''updateMany'', args := Obj c
              (ps @ [(''data'', Obj PlainObject
                        [(''isDeleted'', Bool True), (''deletedAt'', date now)])])\<rparr>))
       \<and> deletions1 now p = Inr (p\<lparr>action := ''updateMany'', args := Obj c
              (ps @ [(''data'', Obj PlainObject [(''deletedAt'', date now)])])\<rparr>)))
   \<and> (action p = ''update'' \<or> action p = ''updateMany'' \<longrightarrow>
      (\<not> truthy (args p) \<longrightarrow>
         updates1 now p = Inr (p\<lparr>args := Obj PlainObject
            [(''data'', Obj PlainObject [(''updatedAt'', date now)])]\<rparr>))
    \<and> (\<forall>c ps. args p = Obj c ps \<longrightarrow> map_of ps ''data'' = None \<longrightarrow>
         updates1 now p = Inr (p\<lparr>args := Obj c
            (ps @ [(''data'', Obj PlainObject [(''updatedAt'', date now)])])\<rparr>)))
   \<and> (nullish (args p) \<longrightarrow>
      (action p = ''delete'' \<longrightarrow>
         (\<not> in_skipList (model p) \<longrightarrow> deletions2 now p = Inl TypeError)
       \<and> deletions1 now p = Inl TypeError)
    \<and> (action p = ''findUnique'' \<longrightarrow>
         (\<not> in_skipList (model p) \<longrightarrow> lookups2 p = Inl TypeError)
       \<and> lookups1 p = Inl TypeError))"
proof -
  have ab: "AList.update k x ps = ps @ [(k, x)]" if "map_of ps k = None"
    for k x and ps :: "(string \<times> jsval) list"
    using that by (intro update_absent) (simp add: map_of_eq_None_iff)
  have n: "set_prop (args p) k x = Inl TypeError" "get_prop (args p) k = Inl TypeError"
    if "nullish (args p)" for k x
    using that by (cases "args p"; simp add: get_prop_def)+
  have ab2: "AList.update k y (ps @ [(k, x)]) = ps @ [(k, y)]" if "map_of ps k = None"
    for k x y and ps :: "(string \<times> jsval) list"
    using that by (induction ps) (auto split: if_splits)
  have fm: ?thesis if "action p = ''findMany''"
    using that
    by (auto simp: lookups2_def lookups1_def find_many_block2_def find_many_block1_def
          get_prop_opt_def lookup_prop_def Let_def ab)
  have dm: ?thesis if "action p = ''deleteMany''"
    using that
    by (auto simp: deletions2_def deletions1_def tombstone_def
          get_prop_opt_def lookup_prop_def Let_def ab)
  have up: ?thesis if "action p = ''update'' \<or> action p = ''updateMany''"
    using that
    by (auto simp: updates1_def get_prop_def lookup_prop_def Let_def ab ab2 map_add_def)
  have de: ?thesis if "action p = ''delete''"
    using that n by (auto simp: deletions2_def deletions1_def)
  have fu: ?thesis if "action p = ''findUnique''"
    using that n by (auto simp: lookups2_def lookups1_def find_unique_block_def)
  have ot: ?thesis
    if "action p \<noteq> ''findMany''" and "action p \<noteq> ''deleteMany''"
      and "action p \<noteq> ''update''" and "action p \<noteq> ''updateMany''"
      and "action p \<noteq> ''delete''" and "action p \<noteq> ''findUnique''"
    using that by simp
  consider "action p = ''findMany''" | "action p = ''deleteMany''"
    | "action p = ''update'' \<or> action p = ''updateMany''" | "action p = ''delete''"
    | "action p = ''findUnique''"
    | "action p \<noteq> ''findMany''" "action p \<noteq> ''deleteMany''"
      "action p \<noteq> ''update''" "action p \<noteq> ''updateMany''"
      "action p \<noteq> ''delete''" "action p \<noteq> ''findUnique''"
    by blast
  then show ?thesis
    by cases (fact fm dm up de fu ot)+
qed

theorem missing_args_initialised_witness:
  "lookups2 \<lparr>model = Some ''order'', action = ''findMany'', args = Undefined\<rparr>
   = Inr \<lparr>model = Some ''order'', action = ''findMany'',
       args = Obj PlainObject [(''where'', Obj PlainObject [(''isDeleted'', Bool False)])]\<rparr>
   \<and> deletions2 6 \<lparr>model = Some ''order'', action = ''deleteMany'',
       args = Obj PlainObject [(''where'', Obj PlainObject [(''status'', Str ''X'')])]\<rparr>
   = Inr \<lparr>model = Some ''order'', action = ''updateMany'',
       args = Obj PlainObject [(''where'', Obj PlainObject [(''status'', Str ''X'')]),
         (''data'', Obj PlainObject [(''isDeleted'', Bool True),
                                     (''deletedAt'', Obj (DateObject 6) [])])]\<rparr>
   \<and> deletions2 6 \<lparr>model = Some ''order'', action = ''delete'', args = Undefined\<rparr>
   = Inl TypeError"
proof -
  have n: "\<not> in_skipList (Some ''order'')" by (simp add: in_skipList_def skipList_def)
  from n
    missing_args_initialised [of "\<lparr>model = Some ''order'', action = ''findMany'', args = Undefined\<rparr>" 6]
    missing_args_initialised [of "\<lparr>model = Some ''order'', action = ''deleteMany'',
       args = Obj PlainObject [(''where'', Obj PlainObject [(''status'', Str ''X'')])]\<rparr>" 6]
    missing_args_initialised [of "\<lparr>model = Some ''order'', action = ''delete'', args = Undefined\<rparr>" 6]
  show ?thesis by (simp add: date_def)
qed

text \<open>
  Claim C1. On a descriptor whose \<open>args\<close> is an object, the deletion middleware turns
  \<open>delete\<close> into \<open>update\<close> and assigns to \<open>args.data\<close> an object holding the tombstone
  fields only, whatever \<open>data\<close> the caller had put there (\<open>isDeleted\<close> and
  \<open>deletedAt\<close> in the fork, for a model that is not skip-listed; \<open>deletedAt\<close> alone in
  \<open>middleware.ts\<close>). It turns \<open>deleteMany\<close> with an object under \<open>args.data\<close> into
  \<open>updateMany\<close> and assigns the tombstone fields inside that object, whose other fields
  keep their values. Nothing else of the descriptor changes.
\<close>

theorem delete_becomes_update:
  assumes "args p = Obj c ps"
  shows "(action p = ''delete'' \<longrightarrow>
            (\<not> in_skipList (model p) \<longrightarrow>
               deletions2 now p = Inr (p\<lparr>action := ''update'',
                 args := Obj c (AList.update ''data''
                   (Obj PlainObject [(''isDeleted'', Bool True), (''deletedAt'', date now)]) ps)\<rparr>))
          \<and> deletions1 now p = Inr (p\<lparr>action := ''update'',
                 args := Obj c (AList.update ''data''
                   (Obj PlainObject [(''deletedAt'', date now)]) ps)\<rparr>))
       \<and> (\<forall>c' ds. action p = ''deleteMany'' \<longrightarrow> map_of ps ''data'' = Some (Obj c' ds) \<longrightarrow>
            (\<not> in_skipList (model p) \<longrightarrow>
               deletions2 now p = Inr (p\<lparr>action := ''updateMany'',
                 args := Obj c (AList.update ''data''
                   (Obj c' (AList.update ''deletedAt'' (date now)
                              (AList.update ''isDeleted'' (Bool True) ds))) ps)\<rparr>))
          \<and> deletions1 now p = Inr (p\<lparr>action := ''updateMany'',
                 args := Obj c (AList.update ''data''
                   (Obj c' (AList.update ''deletedAt'' (date now) ds)) ps)\<rparr>)
          \<and> (\<forall>k. k \<noteq> ''isDeleted'' \<and> k \<noteq> ''deletedAt'' \<longrightarrow>
                 map_of (AList.update ''deletedAt'' (date now)
                              (AList.update ''isDeleted'' (Bool True) ds)) k = map_of ds k))"
  using assms
  by (simp add: deletions2_def deletions1_def tombstone_def get_prop_opt_def
        lookup_prop_def Let_def update_conv')

theorem delete_becomes_update_witness:
  "deletions2 7 \<lparr>model = Some ''order'', action = ''delete'',
       args = Obj PlainObject [(''where'', Obj PlainObject [(''id'', Num 2)]),
                               (''data'', Obj PlainObject [(''note'', Str ''x'')])]\<rparr>
   = Inr \<lparr>model = Some ''order'', action = ''update'',
       args = Obj PlainObject [(''where'', Obj PlainObject [(''id'', Num 2)]),
                (''data'', Obj PlainObject [(''isDeleted'', Bool True),
                                            (''deletedAt'', Obj (DateObject 7) [])])]\<rparr>
   \<and> deletions2 7 \<lparr>model = Some ''order'', action = ''deleteMany'',
       args = Obj PlainObject [(''where'', Obj PlainObject [(''status'', Str ''X'')]),
                               (''data'', Obj PlainObject [(''note'', Str ''x'')])]\<rparr>
   = Inr \<lparr>model = Some ''order'', action = ''updateMany'',
       args = Obj PlainObject [(''where'', Obj PlainObject [(''status'', Str ''X'')]),
                (''data'', Obj PlainObject [(''note'', Str ''x''), (''isDeleted'', Bool True),
                                            (''deletedAt'', Obj (DateObject 7) [])])]\<rparr>"
proof -
  let ?d = "\<lparr>model = Some ''order'', action = ''delete'',
       args = Obj PlainObject [(''where'', Obj PlainObject [(''id'', Num 2)]),
                               (''data'', Obj PlainObject [(''note'', Str ''x'')])]\<rparr>"
  let ?m = "\<lparr>model = Some ''order'', action = ''deleteMany'',
       args = Obj PlainObject [(''where'', Obj PlainObject [(''status'', Str ''X'')]),
                               (''data'', Obj PlainObject [(''note'', Str ''x'')])]\<rparr>"
  have n: "\<not> in_skipList (Some ''order'')" by (simp add: in_skipList_def skipList_def)
  have 1: "args ?d = Obj PlainObject [(''where'', Obj PlainObject [(''id'', Num 2)]),
                               (''data'', Obj PlainObject [(''note'', Str ''x'')])]" by simp
  have 2: "args ?m = Obj PlainObject [(''where'', Obj PlainObject [(''status'', Str ''X'')]),
                               (''data'', Obj PlainObject [(''note'', Str ''x'')])]" by simp
  from delete_becomes_update [OF 1, of 7] delete_becomes_update [OF 2, of 7] n
  show ?thesis by (simp add: date_def)
qed

text \<open>
  Claim C9. The update middleware of \<open>middleware.ts\<close> (the variant in which the stamp is
  enabled), on \<open>update\<close> and \<open>updateMany\<close>: an absent (falsy) \<open>args\<close> becomes
  \<open>{data: {updatedAt: now}}\<close>; in an \<open>args\<close> object an absent (falsy) \<open>data\<close>
  becomes \<open>{updatedAt: now}\<close>, and a \<open>data\<close> object receives \<open>updatedAt\<close> while its
  other fields keep their values. A descriptor with any other action is handed on unchanged.
\<close>

theorem update_stamped:
  "(action p = ''update'' \<or> action p = ''updateMany'' \<longrightarrow>
      (\<not> truthy (args p) \<longrightarrow>
         updates1 now p = Inr (p\<lparr>args := Obj PlainObject
            [(''data'', Obj PlainObject [(''updatedAt'', date now)])]\<rparr>))
    \<and> (\<forall>c ps. args p = Obj c ps \<longrightarrow>
         (\<not> truthy (lookup_prop (args p) ''data'') \<longrightarrow>
            updates1 now p = Inr (p\<lparr>args := Obj c (AList.update ''data''
               (Obj PlainObject [(''updatedAt'', date now)]) ps)\<rparr>))
       \<and> (\<forall>c' ds. map_of ps ''data'' = Some (Obj c' ds) \<longrightarrow>
            updates1 now p = Inr (p\<lparr>args := Obj c (AList.update ''data''
               (Obj c' (AList.update ''updatedAt'' (date now) ds)) ps)\<rparr>)
          \<and> (\<forall>k. k \<noteq> ''updatedAt'' \<longrightarrow>
                 map_of (AList.update ''updatedAt'' (date now) ds) k = map_of ds k))))
   \<and> (action p \<noteq> ''update'' \<and> action p \<noteq> ''updateMany'' \<longrightarrow> updates1 now p = Inr p)"
  by (auto simp: updates1_def get_prop_def lookup_prop_def Let_def update_conv')


theorem update_stamped_witness:
  "updates1 9 \<lparr>model = Some ''order'', action = ''update'',
       args = Obj PlainObject [(''where'', Obj PlainObject [(''id'', Num 2)]),
                               (''data'', Obj PlainObject [(''note'', Str ''x'')])]\<rparr>
   = Inr \<lparr>model = Some ''order'', action = ''update'',
       args = Obj PlainObject [(''where'', Obj PlainObject [(''id'', Num 2)]),
                (''data'', Obj PlainObject [(''note'', Str ''x''),
                                            (''updatedAt'', Obj (DateObject 9) [])])]\<rparr>
   \<and> updates1 9 \<lparr>model = Some ''order'', action = ''updateMany'', args = Undefined\<rparr>
   = Inr \<lparr>model = Some ''order'', action = ''updateMany'',
       args = Obj PlainObject [(''data'', Obj PlainObject [(''updatedAt'', Obj (DateObject 9) [])])]\<rparr>
   \<and> updates1 9 \<lparr>model = Some ''order'', action = ''create'',
       args = Obj PlainObject [(''data'', Obj PlainObject [(''note'', Str ''x'')])]\<rparr>
   = Inr \<lparr>model = Some ''order'', action = ''create'',
       args = Obj PlainObject [(''data'', Obj PlainObject [(''note'', Str ''x'')])]\<rparr>"
  using
    update_stamped [of "\<lparr>model = Some ''order'', action = ''update'',
       args = Obj PlainObject [(''where'', Obj PlainObject [(''id'', Num 2)]),
                               (''data'', Obj PlainObject [(''note'', Str ''x'')])]\<rparr>" 9]
    update_stamped [of "\<lparr>model = Some ''order'', action = ''updateMany'', args = Undefined\<rparr>" 9]
    update_stamped [of "\<lparr>model = Some ''order'', action = ''create'',
       args = Obj PlainObject [(''data'', Obj PlainObject [(''note'', Str ''x'')])]\<rparr>" 9]
  by (simp add: date_def)

text \<open>
  Claim C7. On a \<open>findMany\<close> descriptor, running the whole chain on the outcome of the
  chain gives that outcome again: the second pass neither adds a second filter nor
  changes the one that is there (and a pass that throws has thrown already). This holds
  for the three middlewares of the fork and for the three of \<open>middleware.ts\<close>, whatever
  the clock reads in either pass.
\<close>

theorem read_many_chain_idempotent:
  assumes "action p = ''findMany''"
  shows "bnd (applyMiddleware2 now p) (applyMiddleware2 now') = applyMiddleware2 now p
       \<and> bnd (applyMiddleware1 now p) (applyMiddleware1 now') = applyMiddleware1 now p"
proof
  show "bnd (applyMiddleware2 now p) (applyMiddleware2 now') = applyMiddleware2 now p"
  proof (cases "applyMiddleware2 now p")
    case (Inl e)
    then show ?thesis by simp
  next
    case (Inr p1)
    then obtain q q2 where l: "lookups2 p = Inr q" and d: "deletions2 now q = Inr q2"
      and i2: "includes2 q2 = Inr p1"
      by (auto simp: applyMiddleware2_def bnd_eq_Inr)
    have q: "action q = ''findMany'' \<and> model q = model p \<and>
             (in_skipList (model q) \<or> has_filter ''isDeleted'' (args q))"
    proof (cases "in_skipList (model p)")
      case True
      with l assms show ?thesis by (simp add: lookups2_def)
    next
      case False
      with l assms have "find_many_block2 p = Inr q" by (simp add: lookups2_def)
      from find_many_block2_result [OF this] assms show ?thesis by simp
    qed
    then have "deletions2 now q = Inr q" by (simp add: deletions2_def)
    with d i2 have i: "includes2 q = Inr p1" by simp
    from q have f: "in_skipList (model q) \<or> has_filter ''isDeleted'' (args q)" by blast
    from includes2_frame [OF i] q have p1: "action p1 = ''findMany''" "model p1 = model q"
      by simp_all
    from f includes2_has_filter [OF i] p1
    have "in_skipList (model p1) \<or> has_filter ''isDeleted'' (args p1)" by auto
    then have "lookups2 p1 = Inr p1"
      using p1(1) find_many_block2_fixed [of p1] by (auto simp: lookups2_def)
    moreover have "deletions2 now' p1 = Inr p1"
      using p1(1) by (simp add: deletions2_def)
    ultimately have "applyMiddleware2 now' p1 = Inr p1"
      using includes2_idem [OF i] by (simp add: applyMiddleware2_def)
    with Inr show ?thesis by simp
  qed
next
  have u: "updates1 t q = Inr q" "deletions1 t q = Inr q" if "action q = ''findMany''" for t q
    using that by (simp_all add: updates1_def deletions1_def)
  have l: "lookups1 q = find_many_block1 q" if "action q = ''findMany''" for q
    using that by (simp add: lookups1_def)
  show "bnd (applyMiddleware1 now p) (applyMiddleware1 now') = applyMiddleware1 now p"
  proof (cases "find_many_block1 p")
    case (Inl e)
    then show ?thesis using assms by (simp add: applyMiddleware1_def l)
  next
    case (Inr q)
    from find_many_block1_result [OF Inr] assms
    have q: "action q = ''findMany''" and f: "has_filter ''deletedAt'' (args q)" by simp_all
    have 1: "applyMiddleware1 now p = Inr q"
      using assms Inr q by (simp add: applyMiddleware1_def l u)
    have 2: "applyMiddleware1 now' q = Inr q"
      using q find_many_block1_fixed [OF f] by (simp add: applyMiddleware1_def l u)
    from 1 2 show ?thesis by simp
  qed
qed


theorem read_many_chain_idempotent_witness:
  "applyMiddleware2 3 \<lparr>model = Some ''order'', action = ''findMany'',
       args = Obj PlainObject [(''where'', Obj PlainObject [(''status'', Str ''open'')]),
                               (''include'', Obj PlainObject [(''items'', Bool True)])]\<rparr>
   = Inr \<lparr>model = Some ''order'', action = ''findMany'',
       args = Obj PlainObject
         [(''where'', Obj PlainObject [(''status'', Str ''open''), (''isDeleted'', Bool False)]),
          (''include'', Obj PlainObject [(''items'', Obj PlainObject
              [(''where'', Obj PlainObject [(''isDeleted'', Bool False)])])])]\<rparr>
   \<and> bnd (applyMiddleware2 3 \<lparr>model = Some ''order'', action = ''findMany'',
       args = Obj PlainObject [(''where'', Obj PlainObject [(''status'', Str ''open'')]),
                               (''include'', Obj PlainObject [(''items'', Bool True)])]\<rparr>)
         (applyMiddleware2 8)
   = Inr \<lparr>model = Some ''order'', action = ''findMany'',
       args = Obj PlainObject
         [(''where'', Obj PlainObject [(''status'', Str ''open''), (''isDeleted'', Bool False)]),
          (''include'', Obj PlainObject [(''items'', Obj PlainObject
              [(''where'', Obj PlainObject [(''isDeleted'', Bool False)])])])]\<rparr>
   \<and> bnd (applyMiddleware1 3 \<lparr>model = Some ''order'', action = ''findMany'',
       args = Obj PlainObject [(''where'', Obj PlainObject [(''status'', Str ''open'')])]\<rparr>)
         (applyMiddleware1 8)
   = Inr \<lparr>model = Some ''order'', action = ''findMany'',
       args = Obj PlainObject
         [(''where'', Obj PlainObject [(''status'', Str ''open''), (''deletedAt'', Null)])]\<rparr>"
proof -
  let ?p = "\<lparr>model = Some ''order'', action = ''findMany'',
       args = Obj PlainObject [(''where'', Obj PlainObject [(''status'', Str ''open'')]),
                               (''include'', Obj PlainObject [(''items'', Bool True)])]\<rparr>"
  let ?q = "\<lparr>model = Some ''order'', action = ''findMany'',
       args = Obj PlainObject [(''where'', Obj PlainObject [(''status'', Str ''open'')])]\<rparr>"
  have a: "action ?p = ''findMany''" and b: "action ?q = ''findMany''" by simp_all
  have 1: "applyMiddleware2 3 ?p = Inr \<lparr>model = Some ''order'', action = ''findMany'',
       args = Obj PlainObject
         [(''where'', Obj PlainObject [(''status'', Str ''open''), (''isDeleted'', Bool False)]),
          (''include'', Obj PlainObject [(''items'', Obj PlainObject
              [(''where'', Obj PlainObject [(''isDeleted'', Bool False)])])])]\<rparr>"
    by (simp add: run_simps)
  have 2: "applyMiddleware1 3 ?q = Inr \<lparr>model = Some ''order'', action = ''findMany'',
       args = Obj PlainObject
         [(''where'', Obj PlainObject [(''status'', Str ''open''), (''deletedAt'', Null)])]\<rparr>"
    by (simp add: run_simps)
  from read_many_chain_idempotent [OF a, of 3 8] read_many_chain_idempotent [OF b, of 3 8] 1 2
  show ?thesis by simp
qed

text \<open>
  Claim C2. The claim asks that the \<open>findUnique\<close> branch copy scalar predicate entries
  unchanged while it flattens a composite key. The code takes every entry whose
  \<open>typeof\<close> is \<open>object\<close> for a composite key, and a \<open>Date\<close> is such an entry:
  it goes to the hoisting branch, \<open>Object.entries\<close> of a \<open>Date\<close> is empty, and the
  entry is lost. On \<open>findUnique({where: {createdAt: date}})\<close> both files hand on
  \<open>findFirst\<close> with a predicate that holds the filter only. The part of the claim about
  the composite key itself holds (\<open>find_unique_composite_key\<close>), and so does the
  copying of entries with any other \<open>typeof\<close> (\<open>find_unique_primitive_entries\<close>).
\<close>

theorem find_unique_date_entry_dropped:
  "lookups2 \<lparr>model = Some ''session'', action = ''findUnique'',
      args = Obj PlainObject [(''where'', Obj PlainObject
                [(''createdAt'', Obj (DateObject 0) [])])]\<rparr>
   = Inr \<lparr>model = Some ''session'', action = ''findFirst'',
      args = Obj PlainObject [(''where'', Obj PlainObject [(''isDeleted'', Bool False)])]\<rparr>
   \<and> lookups1 \<lparr>model = Some ''session'', action = ''findUnique'',
      args = Obj PlainObject [(''where'', Obj PlainObject
                [(''createdAt'', Obj (DateObject 0) [])])]\<rparr>
   = Inr \<lparr>model = Some ''session'', action = ''findFirst'',
      args = Obj PlainObject [(''where'', Obj PlainObject [(''deletedAt'', Null)])]\<rparr>"
  by (simp add: run_simps)

text \<open>
  Claim C3, as stated, fails: the include middleware never tests \<open>params.model\<close>
  against the skip list, it tests the include keys. For the skip-listed model
  \<open>organization\<close>, \<open>findMany({include: {users: true}})\<close> leaves the include
  middleware with \<open>include.users\<close> rewritten.
\<close>

theorem skip_listed_include_rewritten:
  "in_skipList (model \<lparr>model = Some ''organization'', action = ''findMany'',
      args = Obj PlainObject [(''include'', Obj PlainObject [(''users'', Bool True)])]\<rparr>)
   \<and> includes2 \<lparr>model = Some ''organization'', action = ''findMany'',
      args = Obj PlainObject [(''include'', Obj PlainObject [(''users'', Bool True)])]\<rparr>
     = Inr \<lparr>model = Some ''organization'', action = ''findMany'',
      args = Obj PlainObject [(''include'', Obj PlainObject [(''users'',
         Obj PlainObject [(''where'', Obj PlainObject [(''isDeleted'', Bool False)])])])]\<rparr>"
  by (simp add: run_simps)

text \<open>
  Claim C3, amended. For a descriptor whose model is skip-listed, the lookup and the
  deletion middleware hand the descriptor on unchanged, whatever the action and the
  arguments. The include middleware consults the skip list for the include keys, not for
  the model: whenever it hands the descriptor on, the model, the action and every
  argument other than \<open>include\<close> are unchanged, and so is every include entry under a
  skip-listed key. A descriptor whose \<open>args\<close> is present and holds no (truthy)
  \<open>include\<close> passes the whole chain unchanged.
\<close>

theorem skip_listed_forwarded:
  assumes "in_skipList (model p)"
  shows "lookups2 p = Inr p \<and> deletions2 now p = Inr p
       \<and> (\<forall>p'. includes2 p = Inr p' \<longrightarrow>
             model p' = model p \<and> action p' = action p
           \<and> (\<forall>k. k \<noteq> ''include'' \<longrightarrow> lookup_prop (args p') k = lookup_prop (args p) k)
           \<and> (\<forall>k. in_skipList (Some k) \<longrightarrow>
                 lookup_prop (lookup_prop (args p') ''include'') k
                   = lookup_prop (lookup_prop (args p) ''include'') k))
       \<and> (\<not> nullish (args p) \<longrightarrow> \<not> truthy (lookup_prop (args p) ''include'') \<longrightarrow>
             applyMiddleware2 now p = Inr p)"
proof -
  have 1: "lookups2 p = Inr p" and 2: "deletions2 now p = Inr p"
    using assms by (simp_all add: lookups2_def deletions2_def)
  have 3: "applyMiddleware2 now p = Inr p"
    if "\<not> nullish (args p)" and "\<not> truthy (lookup_prop (args p) ''include'')"
    using includes2_no_include [OF that] 1 2 by (simp add: applyMiddleware2_def)
  show ?thesis
    using 1 2 3 includes2_frame includes2_skip_key by blast
qed

theorem skip_listed_forwarded_witness:
  "in_skipList (Some ''organization'')
   \<and> lookups2 \<lparr>model = Some ''organization'', action = ''findUnique'',
        args = Obj PlainObject [(''where'', Obj PlainObject [(''id'', Num 1)])]\<rparr>
     = Inr \<lparr>model = Some ''organization'', action = ''findUnique'',
        args = Obj PlainObject [(''where'', Obj PlainObject [(''id'', Num 1)])]\<rparr>
   \<and> applyMiddleware2 4 \<lparr>model = Some ''organization'', action = ''findUnique'',
        args = Obj PlainObject [(''where'', Obj PlainObject [(''id'', Num 1)])]\<rparr>
     = Inr \<lparr>model = Some ''organization'', action = ''findUnique'',
        args = Obj PlainObject [(''where'', Obj PlainObject [(''id'', Num 1)])]\<rparr>"
proof -
  let ?p = "\<lparr>model = Some ''organization'', action = ''findUnique'',
        args = Obj PlainObject [(''where'', Obj PlainObject [(''id'', Num 1)])]\<rparr>"
  have s: "in_skipList (model ?p)" by (simp add: in_skipList_def skipList_def)
  have n: "\<not> nullish (args ?p)" and t: "\<not> truthy (lookup_prop (args ?p) ''include'')"
    by (simp_all add: lookup_prop_def)
  from skip_listed_forwarded [OF s, of 4] s n t show ?thesis by simp
qed

text \<open>
  Claim C4, as stated, fails for read-one: the \<open>findUnique\<close> branch assigns the filter
  after rebuilding the predicate, without looking at what the caller wrote.
\<close>

theorem read_one_overwrites_explicit_filter:
  "lookups2 \<lparr>model = Some ''user'', action = ''findUnique'',
      args = Obj PlainObject [(''where'', Obj PlainObject
                [(''id'', Num 1), (''isDeleted'', Bool True)])]\<rparr>
   = Inr \<lparr>model = Some ''user'', action = ''findFirst'',
      args = Obj PlainObject [(''where'', Obj PlainObject
                [(''id'', Num 1), (''isDeleted'', Bool False)])]\<rparr>
   \<and> lookups1 \<lparr>model = Some ''user'', action = ''findUnique'',
      args = Obj PlainObject [(''where'', Obj PlainObject
                [(''id'', Num 1), (''deletedAt'', Str ''2020-01-01'')])]\<rparr>
   = Inr \<lparr>model = Some ''user'', action = ''findFirst'',
      args = Obj PlainObject [(''where'', Obj PlainObject
                [(''id'', Num 1), (''deletedAt'', Null)])]\<rparr>"
  by (simp add: run_simps)

text \<open>
  Claim C4, amended. On a \<open>findMany\<close> descriptor whose \<open>where\<close> object sets the filter
  field to a value other than \<open>undefined\<close>, no middleware changes the predicate: the
  lookup and deletion middleware of the fork return the descriptor as it is and the
  include middleware leaves \<open>where\<close> alone; the chain of \<open>middleware.ts\<close> returns the
  descriptor as it is. An include entry whose \<open>where\<close> object has \<open>isDeleted\<close> as an
  own property is the same after the include middleware. The \<open>findUnique\<close> branch
  writes the filter unconditionally: after it \<open>where.isDeleted\<close> is \<open>false\<close>
  (\<open>where.deletedAt\<close> is \<open>null\<close> in \<open>middleware.ts\<close>).
\<close>

theorem explicit_filter_kept:
  "(\<forall>c ps cw ws v. action p = ''findMany'' \<longrightarrow> args p = Obj c ps \<longrightarrow>
       map_of ps ''where'' = Some (Obj cw ws) \<longrightarrow> v \<noteq> Undefined \<longrightarrow>
         (map_of ws ''isDeleted'' = Some v \<longrightarrow>
            lookups2 p = Inr p \<and> deletions2 now p = Inr p
          \<and> (\<forall>p'. includes2 p = Inr p' \<longrightarrow> lookup_prop (args p') ''where'' = Obj cw ws))
       \<and> (map_of ws ''deletedAt'' = Some v \<longrightarrow> applyMiddleware1 now p = Inr p))
   \<and> (\<forall>c ps ci ips k ce es cw ws v p'. args p = Obj c ps \<longrightarrow>
         map_of ps ''include'' = Some (Obj ci ips) \<longrightarrow> map_of ips k = Some (Obj ce es) \<longrightarrow>
         map_of es ''where'' = Some (Obj cw ws) \<longrightarrow> map_of ws ''isDeleted'' = Some v \<longrightarrow>
         includes2 p = Inr p' \<longrightarrow>
           lookup_prop (lookup_prop (args p') ''include'') k = Obj ce es)
   \<and> (action p = ''findUnique'' \<longrightarrow>
         (\<forall>p'. \<not> in_skipList (model p) \<longrightarrow> lookups2 p = Inr p' \<longrightarrow>
            lookup_prop (lookup_prop (args p') ''where'') ''isDeleted'' = Bool False)
       \<and> (\<forall>p'. lookups1 p = Inr p' \<longrightarrow>
            lookup_prop (lookup_prop (args p') ''where'') ''deletedAt'' = Null))"
proof (intro conjI allI impI)
  fix c ps cw ws v
  assume f: "action p = ''findMany''" and a: "args p = Obj c ps"
    and w: "map_of ps ''where'' = Some (Obj cw ws)" and v: "v \<noteq> Undefined"
  {
    assume d: "map_of ws ''isDeleted'' = Some v"
    from a w d v have h: "has_filter ''isDeleted'' (args p)" by simp
    show "lookups2 p = Inr p"
      using f find_many_block2_fixed [OF h] by (simp add: lookups2_def)
    show "deletions2 now p = Inr p" using f by (simp add: deletions2_def)
    fix p'
    assume "includes2 p = Inr p'"
    from includes2_frame [OF this] a w show "lookup_prop (args p') ''where'' = Obj cw ws"
      by (simp add: lookup_prop_Obj)
  }
  {
    assume d: "map_of ws ''deletedAt'' = Some v"
    from a w d v have h: "has_filter ''deletedAt'' (args p)" by simp
    show "applyMiddleware1 now p = Inr p"
      using f find_many_block1_fixed [OF h]
      by (simp add: applyMiddleware1_def lookups1_def updates1_def deletions1_def)
  }
next
  fix c ps ci ips k ce es cw ws v p'
  assume a: "args p = Obj c ps" and i: "map_of ps ''include'' = Some (Obj ci ips)"
    and e: "map_of ips k = Some (Obj ce es)" and w: "map_of es ''where'' = Some (Obj cw ws)"
    and d: "map_of ws ''isDeleted'' = Some v" and r: "includes2 p = Inr p'"
  from includes2_Obj [OF a i r] obtain ips'
    where inc': "lookup_prop (args p') ''include'' = Obj ci ips'"
      and m: "\<forall>k. map_of ips' k =
              (if in_skipList (Some k) then map_of ips k
               else map_option settled (map_of ips k))"
    by blast
  have "''where'' \<in> fst ` set es" using w by (metis map_of_eq_None_iff option.distinct(1))
  moreover have "''isDeleted'' \<in> fst ` set ws"
    using d by (metis map_of_eq_None_iff option.distinct(1))
  ultimately have "rewrite_element (Obj ce es) = Inr None"
    using w by (simp add: rewrite_element_def has_own_def get_prop_def lookup_prop_Obj)
  then have "map_of ips' k = Some (Obj ce es)"
    using m [rule_format, of k] e by simp
  then show "lookup_prop (lookup_prop (args p') ''include'') k = Obj ce es"
    using inc' by (simp add: lookup_prop_Obj)
next
  fix p'
  assume f: "action p = ''findUnique''" and n: "\<not> in_skipList (model p)"
    and r: "lookups2 p = Inr p'"
  from r f n have "find_unique_block ''isDeleted'' (Bool False) p = Inr p'"
    by (auto simp: lookups2_def bnd_eq_Inr find_unique_block_def split: if_splits)
  then show "lookup_prop (lookup_prop (args p') ''where'') ''isDeleted'' = Bool False"
    by (rule find_unique_block_filter) simp
next
  fix p'
  assume f: "action p = ''findUnique''" and r: "lookups1 p = Inr p'"
  from r f have "find_unique_block ''deletedAt'' Null p = Inr p'"
    by (auto simp: lookups1_def bnd_eq_Inr find_unique_block_def split: if_splits)
  then show "lookup_prop (lookup_prop (args p') ''where'') ''deletedAt'' = Null"
    by (rule find_unique_block_filter) simp
qed

theorem explicit_filter_kept_witness:
  "applyMiddleware2 2 \<lparr>model = Some ''user'', action = ''findMany'',
      args = Obj PlainObject [(''where'', Obj PlainObject [(''isDeleted'', Bool True)])]\<rparr>
   = Inr \<lparr>model = Some ''user'', action = ''findMany'',
      args = Obj PlainObject [(''where'', Obj PlainObject [(''isDeleted'', Bool True)])]\<rparr>
   \<and> lookups2 \<lparr>model = Some ''user'', action = ''findMany'',
      args = Obj PlainObject [(''where'', Obj PlainObject [(''isDeleted'', Bool True)])]\<rparr>
   = Inr \<lparr>model = Some ''user'', action = ''findMany'',
      args = Obj PlainObject [(''where'', Obj PlainObject [(''isDeleted'', Bool True)])]\<rparr>"
proof -
  let ?ws = "[(''isDeleted'', Bool True)]"
  let ?ps = "[(''where'', Obj PlainObject ?ws)]"
  let ?p = "\<lparr>model = Some ''user'', action = ''findMany'', args = Obj PlainObject ?ps\<rparr>"
  have f: "action ?p = ''findMany''" and a: "args ?p = Obj PlainObject ?ps"
    and w: "map_of ?ps ''where'' = Some (Obj PlainObject ?ws)"
    and v: "Bool True \<noteq> Undefined" and d: "map_of ?ws ''isDeleted'' = Some (Bool True)"
    by simp_all
  note k = explicit_filter_kept [of ?p 2, THEN conjunct1, rule_format, OF f a w v, THEN conjunct1,
      rule_format, OF d]
  have i: "includes2 ?p = Inr ?p" by (simp add: run_simps)
  from k i show ?thesis by (simp add: applyMiddleware2_def)
qed

end
